theory Spec2Isabelle
  imports Main "HOL-Library.Word" "HOL-Library.AList"
begin

unbundle bit_operations_syntax

section \<open>Data model (service.go)\<close>

text \<open>
  A \<open>uuid.UUID\<close> is an array of 16 bytes, here one 128-bit word (the first byte of the
  array is the most significant one); \<open>uuid.Nil\<close> is the all-zero array.
\<close>

type_synonym uuid = "128 word"

definition uuid_Nil :: uuid where
  "uuid_Nil = 0"

text \<open>
  A \<open>time.Time\<close> is an instant with nanosecond resolution, here the number of
  nanoseconds since the Unix epoch; a \<open>time.Duration\<close> is a number of nanoseconds.
  \<open>Before\<close> and \<open>After\<close> are the strict orders on instants.
\<close>

type_synonym Time = int
type_synonym Duration = int

definition Second :: Duration where
  "Second = 1000000000"

definition Unix :: "Time \<Rightarrow> int" where
  "Unix t = t div Second"

definition Add :: "Time \<Rightarrow> Duration \<Rightarrow> Time" where
  "Add t d = t + d"

text \<open>The zero \<open>time.Time\<close> is January 1 of year 1, 00:00:00 UTC.\<close>

definition zeroTime :: Time where
  "zeroTime = - 62135596800 * Second"

text \<open>\<open>Truncate\<close> rounds down to a multiple of \<open>d\<close> since the zero time.\<close>

definition Truncate :: "Time \<Rightarrow> Duration \<Rightarrow> Time" where
  "Truncate t d = (if d \<le> 0 then t else t - (t - zeroTime) mod d)"

definition Before :: "Time \<Rightarrow> Time \<Rightarrow> bool" where
  "Before t u = (t < u)"

definition After :: "Time \<Rightarrow> Time \<Rightarrow> bool" where
  "After t u = (u < t)"

text \<open>
  The five errors of the package, and two opaque ones coming from outside of it: a failure
  of the random source and a failure of the database driver. \<open>ErrNoRows\<close> is
  \<open>sql.ErrNoRows\<close>.
\<close>

datatype error =
  ErrNoToken | ErrInvalidToken | ErrTokenUsed | ErrTokenExpired | ErrTokenNotFound
  | ErrNoRows | ErrRandom | ErrDriver

record Nonce =
  ID :: uuid
  UserID :: uuid
  Token :: string
  Action :: string
  Salt :: string
  IsUsed :: bool
  IsValid :: bool
  CreatedAt :: int
  ExpiresAt :: Time

text \<open>The zero value \<open>Nonce{}\<close>.\<close>

definition zeroNonce :: Nonce where
  "zeroNonce = \<lparr>ID = uuid_Nil, UserID = uuid_Nil, Token = [], Action = [], Salt = [],
     IsUsed = False, IsValid = False, CreatedAt = 0, ExpiresAt = zeroTime\<rparr>"

section \<open>Strings\<close>

text \<open>
  A Go string is a sequence of bytes and \<open>len\<close> counts bytes: a \<open>string\<close> here, one
  \<open>char\<close> per byte. \<open>strings.TrimSpace\<close> removes the leading and the trailing
  white space, as \<open>unicode.IsSpace\<close> sees it on the UTF-8 decoding of the string: the
  six ASCII characters, U+0085, U+00A0, U+1680, U+2000 to U+200A, U+2028, U+2029, U+202F,
  U+205F and U+3000. \<open>spaceRunes\<close> are their encodings.
\<close>

definition spaceRunes :: "string list" where
  "spaceRunes =
     [ [CHR 0x09], [CHR 0x0A], [CHR 0x0B], [CHR 0x0C], [CHR 0x0D], [CHR 0x20],
      [CHR 0xC2, CHR 0x85], [CHR 0xC2, CHR 0xA0],
      [CHR 0xE1, CHR 0x9A, CHR 0x80],
      [CHR 0xE2, CHR 0x80, CHR 0x80], [CHR 0xE2, CHR 0x80, CHR 0x81],
      [CHR 0xE2, CHR 0x80, CHR 0x82], [CHR 0xE2, CHR 0x80, CHR 0x83],
      [CHR 0xE2, CHR 0x80, CHR 0x84], [CHR 0xE2, CHR 0x80, CHR 0x85],
      [CHR 0xE2, CHR 0x80, CHR 0x86], [CHR 0xE2, CHR 0x80, CHR 0x87],
      [CHR 0xE2, CHR 0x80, CHR 0x88], [CHR 0xE2, CHR 0x80, CHR 0x89],
      [CHR 0xE2, CHR 0x80, CHR 0x8A],
      [CHR 0xE2, CHR 0x80, CHR 0xA8], [CHR 0xE2, CHR 0x80, CHR 0xA9],
      [CHR 0xE2, CHR 0x80, CHR 0xAF],
      [CHR 0xE2, CHR 0x81, CHR 0x9F],
      [CHR 0xE3, CHR 0x80, CHR 0x80] ]"

text \<open>The number of bytes of the white-space rune a string starts with, 0 when it starts with none.\<close>

definition leadingSpace :: "string \<Rightarrow> nat" where
  "leadingSpace s =
     (case find (\<lambda>e. take (length e) s = e) spaceRunes of None \<Rightarrow> 0 | Some e \<Rightarrow> length e)"

text \<open>The same for the rune a string ends with.\<close>

definition trailingSpace :: "string \<Rightarrow> nat" where
  "trailingSpace s =
     (case find (\<lambda>e. length e \<le> length s \<and> drop (length s - length e) s = e) spaceRunes of
        None \<Rightarrow> 0 | Some e \<Rightarrow> length e)"

function TrimLeftSpace :: "string \<Rightarrow> string" where
  "TrimLeftSpace s =
     (if leadingSpace s = 0 \<or> s = [] then s else TrimLeftSpace (drop (leadingSpace s) s))"
  by pat_completeness auto
termination
  by (relation "measure length") auto

function TrimRightSpace :: "string \<Rightarrow> string" where
  "TrimRightSpace s =
     (if trailingSpace s = 0 \<or> s = [] then s
      else TrimRightSpace (take (length s - trailingSpace s) s))"
  by pat_completeness auto
termination
  by (relation "measure length") auto

definition TrimSpace :: "string \<Rightarrow> string" where
  "TrimSpace s = TrimRightSpace (TrimLeftSpace s)"

section \<open>Encodings and the digest used for tokens\<close>

type_synonym byte = "8 word"

text \<open>\<open>[]byte(s)\<close>: the bytes of a string.\<close>

definition bytesOf :: "string \<Rightarrow> byte list" where
  "bytesOf s = map of_char s"

text \<open>
  \<open>encoding/base64\<close>: both encodings pad with \<open>=\<close>; \<open>StdEncoding\<close> and
  \<open>URLEncoding\<close> differ in the last two characters of the alphabet.
\<close>

definition encodeStd :: string where
  "encodeStd = ''ABCDEFGHIJKLMNOPQRSTUVWXYZabcdefghijklmnopqrstuvwxyz0123456789+/''"

definition encodeURL :: string where
  "encodeURL = ''ABCDEFGHIJKLMNOPQRSTUVWXYZabcdefghijklmnopqrstuvwxyz0123456789-_''"

fun EncodeToString :: "string \<Rightarrow> byte list \<Rightarrow> string" where
  "EncodeToString al (a # b # c # rest) =
     [al ! unat (drop_bit 2 a),
      al ! unat (push_bit 4 (a AND 3) OR drop_bit 4 b),
      al ! unat (push_bit 2 (b AND 15) OR drop_bit 6 c),
      al ! unat (c AND 63)] @ EncodeToString al rest"
| "EncodeToString al [a, b] =
     [al ! unat (drop_bit 2 a),
      al ! unat (push_bit 4 (a AND 3) OR drop_bit 4 b),
      al ! unat (push_bit 2 (b AND 15)),
      CHR ''='']"
| "EncodeToString al [a] =
     [al ! unat (drop_bit 2 a),
      al ! unat (push_bit 4 (a AND 3)),
      CHR ''='', CHR ''='']"
| "EncodeToString al [] = []"

text \<open>\<open>encoding/hex\<close>, lower case, and \<open>UUID.String\<close>: 8-4-4-4-12 hexadecimal digits.\<close>

definition hextable :: string where
  "hextable = ''0123456789abcdef''"

definition hexEncode :: "byte list \<Rightarrow> string" where
  "hexEncode bs = concat (map (\<lambda>b. [hextable ! unat (drop_bit 4 b), hextable ! unat (b AND 15)]) bs)"

definition uuid_Bytes :: "uuid \<Rightarrow> byte list" where
  "uuid_Bytes u = map (\<lambda>i. ucast (drop_bit (8 * (15 - i)) u)) [0..<16]"

definition uuid_String :: "uuid \<Rightarrow> string" where
  "uuid_String u =
     (let b = uuid_Bytes u in
      hexEncode (take 4 b) @ ''-'' @ hexEncode (take 2 (drop 4 b)) @ ''-'' @
      hexEncode (take 2 (drop 6 b)) @ ''-'' @ hexEncode (take 2 (drop 8 b)) @ ''-'' @
      hexEncode (drop 10 b))"

text \<open>The verb \<open>%d\<close> of \<open>fmt.Sprintf\<close> on an integer: decimal, with a minus sign.\<close>

fun decimal :: "nat \<Rightarrow> string" where
  "decimal n =
     (if n < 10 then [char_of (48 + n)] else decimal (n div 10) @ [char_of (48 + n mod 10)])"

definition FormatInt :: "int \<Rightarrow> string" where
  "FormatInt i = (if i < 0 then CHR ''-'' # decimal (nat (- i)) else decimal (nat i))"

text \<open>
  \<open>crypto/sha512\<close>: SHA-512 as in FIPS 180-4. The message is padded with the byte
  \<open>0x80\<close>, zeros and its length in bits on 16 bytes, up to a multiple of 128 bytes, and
  each block of 128 bytes goes through 80 rounds on eight 64-bit words.
\<close>

type_synonym u64 = "64 word"
type_synonym sha_state = "u64 \<times> u64 \<times> u64 \<times> u64 \<times> u64 \<times> u64 \<times> u64 \<times> u64"

definition K512 :: "u64 list" where
  "K512 =
     [0x428A2F98D728AE22, 0x7137449123EF65CD, 0xB5C0FBCFEC4D3B2F, 0xE9B5DBA58189DBBC,
      0x3956C25BF348B538, 0x59F111F1B605D019, 0x923F82A4AF194F9B, 0xAB1C5ED5DA6D8118,
      0xD807AA98A3030242, 0x12835B0145706FBE, 0x243185BE4EE4B28C, 0x550C7DC3D5FFB4E2,
      0x72BE5D74F27B896F, 0x80DEB1FE3B1696B1, 0x9BDC06A725C71235, 0xC19BF174CF692694,
      0xE49B69C19EF14AD2, 0xEFBE4786384F25E3, 0x0FC19DC68B8CD5B5, 0x240CA1CC77AC9C65,
      0x2DE92C6F592B0275, 0x4A7484AA6EA6E483, 0x5CB0A9DCBD41FBD4, 0x76F988DA831153B5,
      0x983E5152EE66DFAB, 0xA831C66D2DB43210, 0xB00327C898FB213F, 0xBF597FC7BEEF0EE4,
      0xC6E00BF33DA88FC2, 0xD5A79147930AA725, 0x06CA6351E003826F, 0x142929670A0E6E70,
      0x27B70A8546D22FFC, 0x2E1B21385C26C926, 0x4D2C6DFC5AC42AED, 0x53380D139D95B3DF,
      0x650A73548BAF63DE, 0x766A0ABB3C77B2A8, 0x81C2C92E47EDAEE6, 0x92722C851482353B,
      0xA2BFE8A14CF10364, 0xA81A664BBC423001, 0xC24B8B70D0F89791, 0xC76C51A30654BE30,
      0xD192E819D6EF5218, 0xD69906245565A910, 0xF40E35855771202A, 0x106AA07032BBD1B8,
      0x19A4C116B8D2D0C8, 0x1E376C085141AB53, 0x2748774CDF8EEB99, 0x34B0BCB5E19B48A8,
      0x391C0CB3C5C95A63, 0x4ED8AA4AE3418ACB, 0x5B9CCA4F7763E373, 0x682E6FF3D6B2B8A3,
      0x748F82EE5DEFB2FC, 0x78A5636F43172F60, 0x84C87814A1F0AB72, 0x8CC702081A6439EC,
      0x90BEFFFA23631E28, 0xA4506CEBDE82BDE9, 0xBEF9A3F7B2C67915, 0xC67178F2E372532B,
      0xCA273ECEEA26619C, 0xD186B8C721C0C207, 0xEADA7DD6CDE0EB1E, 0xF57D4F7FEE6ED178,
      0x06F067AA72176FBA, 0x0A637DC5A2C898A6, 0x113F9804BEF90DAE, 0x1B710B35131C471B,
      0x28DB77F523047D84, 0x32CAAB7B40C72493, 0x3C9EBE0A15C9BEBC, 0x431D67C49C100D4C,
      0x4CC5D4BECB3E42B6, 0x597F299CFC657E2A, 0x5FCB6FAB3AD6FAEC, 0x6C44198C4A475817]"

definition init512 :: sha_state where
  "init512 =
     (0x6A09E667F3BCC908, 0xBB67AE8584CAA73B, 0x3C6EF372FE94F82B, 0xA54FF53A5F1D36F1,
      0x510E527FADE682D1, 0x9B05688C2B3E6C1F, 0x1F83D9ABFB41BD6B, 0x5BE0CD19137E2179)"

definition Ch :: "u64 \<Rightarrow> u64 \<Rightarrow> u64 \<Rightarrow> u64" where
  "Ch x y z = (x AND y) XOR (NOT x AND z)"

definition Maj :: "u64 \<Rightarrow> u64 \<Rightarrow> u64 \<Rightarrow> u64" where
  "Maj x y z = (x AND y) XOR (x AND z) XOR (y AND z)"

definition bigSigma0 :: "u64 \<Rightarrow> u64" where
  "bigSigma0 x = word_rotr 28 x XOR word_rotr 34 x XOR word_rotr 39 x"

definition bigSigma1 :: "u64 \<Rightarrow> u64" where
  "bigSigma1 x = word_rotr 14 x XOR word_rotr 18 x XOR word_rotr 41 x"

definition smallSigma0 :: "u64 \<Rightarrow> u64" where
  "smallSigma0 x = word_rotr 1 x XOR word_rotr 8 x XOR drop_bit 7 x"

definition smallSigma1 :: "u64 \<Rightarrow> u64" where
  "smallSigma1 x = word_rotr 19 x XOR word_rotr 61 x XOR drop_bit 6 x"

definition be64 :: "byte list \<Rightarrow> u64" where
  "be64 bs = foldl (\<lambda>w b. push_bit 8 w OR ucast b) 0 bs"

definition bytes64 :: "u64 \<Rightarrow> byte list" where
  "bytes64 w = map (\<lambda>i. ucast (drop_bit (8 * (7 - i)) w)) [0..<8]"

definition pad512 :: "byte list \<Rightarrow> byte list" where
  "pad512 msg =
     msg @ [0x80] @ replicate ((128 - (length msg + 17) mod 128) mod 128) 0 @
     map (\<lambda>i. ucast (drop_bit (8 * (15 - i)) (of_nat (8 * length msg) :: 128 word))) [0..<16]"

definition blocks512 :: "byte list \<Rightarrow> byte list list" where
  "blocks512 p = map (\<lambda>i. take 128 (drop (128 * i) p)) [0..<length p div 128]"

definition schedule512 :: "byte list \<Rightarrow> u64 list" where
  "schedule512 blk =
     foldl (\<lambda>w t. w @ [smallSigma1 (w ! (t - 2)) + w ! (t - 7) + smallSigma0 (w ! (t - 15)) + w ! (t - 16)])
       (map (\<lambda>i. be64 (take 8 (drop (8 * i) blk))) [0..<16]) [16..<80]"

definition round512 :: "u64 list \<Rightarrow> sha_state \<Rightarrow> nat \<Rightarrow> sha_state" where
  "round512 w s t =
     (case s of (a, b, c, d, e, f, g, h) \<Rightarrow>
        let t1 = h + bigSigma1 e + Ch e f g + K512 ! t + w ! t;
            t2 = bigSigma0 a + Maj a b c
        in (t1 + t2, a, b, c, d + t1, e, f, g))"

definition block512 :: "sha_state \<Rightarrow> byte list \<Rightarrow> sha_state" where
  "block512 s blk =
     (case s of (h0, h1, h2, h3, h4, h5, h6, h7) \<Rightarrow>
      case foldl (round512 (schedule512 blk)) s [0..<80] of (a, b, c, d, e, f, g, h) \<Rightarrow>
        (h0 + a, h1 + b, h2 + c, h3 + d, h4 + e, h5 + f, h6 + g, h7 + h))"

definition Sum512 :: "byte list \<Rightarrow> byte list" where
  "Sum512 msg =
     (case foldl block512 init512 (blocks512 (pad512 msg)) of
        (h0, h1, h2, h3, h4, h5, h6, h7) \<Rightarrow>
          concat (map bytes64 [h0, h1, h2, h3, h4, h5, h6, h7]))"

section \<open>Token shape and nonce checks (service.go)\<close>

text \<open>A Go \<open>error\<close> result is an \<open>error option\<close>, \<open>None\<close> for \<open>nil\<close>.\<close>

definition checkToken :: "string \<Rightarrow> error option" where
  "checkToken token =
     (if length (TrimSpace token) = 0 then Some ErrNoToken
      else if length token \<noteq> 88 then Some ErrInvalidToken
      else None)"

text \<open>\<open>checkNonce\<close> reads the clock once, after the first two tests: \<open>now\<close> is that reading.\<close>

definition checkNonce :: "Nonce \<Rightarrow> string \<Rightarrow> uuid \<Rightarrow> Time \<Rightarrow> error option" where
  "checkNonce n action uid now =
     (if IsValid n = False \<or> Action n \<noteq> action \<or> UserID n \<noteq> uid then Some ErrInvalidToken
      else if IsUsed n = True then Some ErrTokenUsed
      else if After (ExpiresAt n) now = False then Some ErrTokenExpired
      else None)"

text \<open>
  \<open>newNonce\<close> draws 16 bytes from \<open>helpers.Crypto.GenerateRandomKey\<close> and reads the
  clock: \<open>rnd\<close> is what the random source returned (bytes, or its error) and \<open>t\<close> is
  \<open>time.Now()\<close>. The nonce is not saved yet and has no ID.
\<close>

definition newNonce :: "error + byte list \<Rightarrow> Time \<Rightarrow> string \<Rightarrow> uuid \<Rightarrow> Duration \<Rightarrow> error + Nonce" where
  "newNonce rnd t action uid expiresIn =
     (case rnd of
        Inl err \<Rightarrow> Inl err
      | Inr rawSalt \<Rightarrow>
          let salt = EncodeToString encodeStd rawSalt;
              rawToken = action @ ''::'' @ uuid_String uid @ ''::'' @ FormatInt (Unix t) @ ''::'' @ salt;
              token = EncodeToString encodeURL (Sum512 (bytesOf rawToken))
          in Inr \<lparr>ID = uuid_Nil, UserID = uid, Token = token, Action = action, Salt = salt,
                  IsUsed = False, IsValid = True, CreatedAt = Unix t,
                  ExpiresAt = Truncate (Add t expiresIn) Second\<rparr>)"

text \<open>
  The test both \<open>New\<close> methods apply to every stored nonce \<open>v\<close> after saving the new
  nonce \<open>n\<close>: a valid nonce of the same user and action with another ID becomes invalid.
\<close>

definition invalidate :: "Nonce \<Rightarrow> Nonce \<Rightarrow> Nonce" where
  "invalidate n v =
     (if IsValid v \<and> UserID v = UserID n \<and> Action v = Action n \<and> ID v \<noteq> ID n
      then v\<lparr>IsValid := False\<rparr> else v)"

section \<open>The in-memory service (service.inmem.go)\<close>

text \<open>
  \<open>nonceMap\<close> is a Go map from tokens to nonces. It is an association list here, with
  the keys in the order a \<open>range\<close> loop visits them, which Go leaves unspecified: a
  statement about every list is a statement about every order. Every method takes the store
  and returns it with its result; the lock is held around every access and is not modelled.
  \<open>newID\<close> is what \<open>uuid.NewV4()\<close> returns when \<open>saveNonce\<close> calls it.
\<close>

type_synonym inMemStore = "(string \<times> Nonce) list"

definition inmem_getNonce :: "inMemStore \<Rightarrow> string \<Rightarrow> error + Nonce" where
  "inmem_getNonce st token =
     (case map_of st token of None \<Rightarrow> Inl ErrTokenNotFound | Some n \<Rightarrow> Inr n)"

definition inmem_saveNonce :: "inMemStore \<Rightarrow> uuid \<Rightarrow> Nonce \<Rightarrow> Nonce \<times> inMemStore" where
  "inmem_saveNonce st newID n0 =
     (let n = (if ID n0 = uuid_Nil then n0\<lparr>ID := newID\<rparr> else n0)
      in (n, AList.update (Token n) n st))"

definition inmem_New ::
  "inMemStore \<Rightarrow> error + byte list \<Rightarrow> Time \<Rightarrow> uuid \<Rightarrow> string \<Rightarrow> uuid \<Rightarrow> Duration
     \<Rightarrow> (error + Nonce) \<times> inMemStore" where
  "inmem_New st rnd t newID action uid expiresIn =
     (case newNonce rnd t action uid expiresIn of
        Inl err \<Rightarrow> (Inl err, st)
      | Inr n0 \<Rightarrow>
          let (n, st1) = inmem_saveNonce st newID n0
          in (Inr n, map (\<lambda>(k, v). (k, invalidate n v)) st1))"

definition inmem_Check ::
  "inMemStore \<Rightarrow> string \<Rightarrow> string \<Rightarrow> uuid \<Rightarrow> Time \<Rightarrow> error option \<times> inMemStore" where
  "inmem_Check st token action uid now =
     (case checkToken token of
        Some err \<Rightarrow> (Some err, st)
      | None \<Rightarrow>
          (case inmem_getNonce st token of
             Inl err \<Rightarrow> (Some err, st)
           | Inr n \<Rightarrow> (checkNonce n action uid now, st)))"

definition inmem_Consume ::
  "inMemStore \<Rightarrow> uuid \<Rightarrow> string \<Rightarrow> (error + Nonce) \<times> inMemStore" where
  "inmem_Consume st newID token =
     (case checkToken token of
        Some err \<Rightarrow> (Inl err, st)
      | None \<Rightarrow>
          (case inmem_getNonce st token of
             Inl err \<Rightarrow> (Inl err, st)
           | Inr n \<Rightarrow>
               if IsUsed n = True then (Inl ErrTokenUsed, st)
               else let (n', st') = inmem_saveNonce st newID (n\<lparr>IsUsed := True\<rparr>)
                    in (Inr n', st')))"

definition inmem_CheckThenConsume ::
  "inMemStore \<Rightarrow> uuid \<Rightarrow> string \<Rightarrow> string \<Rightarrow> uuid \<Rightarrow> Time \<Rightarrow> (error + Nonce) \<times> inMemStore" where
  "inmem_CheckThenConsume st newID token action uid now =
     (case inmem_Check st token action uid now of
        (Some err, st1) \<Rightarrow> (Inl err, st1)
      | (None, st1) \<Rightarrow> inmem_Consume st1 newID token)"

text \<open>
  \<open>Get\<close> starts from \<open>make([]Nonce, 1, 1)\<close>, a slice that already holds one zero
  nonce, and appends the nonces of the action and user to it.
\<close>

definition inmem_Get :: "inMemStore \<Rightarrow> string \<Rightarrow> uuid \<Rightarrow> (error + Nonce) \<times> inMemStore" where
  "inmem_Get st action uid =
     (let nonces = [zeroNonce] @ filter (\<lambda>n. Action n = action \<and> UserID n = uid) (map snd st)
      in if length nonces = 0 then (Inl ErrTokenNotFound, st)
         else if length nonces = 1 then (Inr (hd nonces), st)
         else
           let newestN =
                 foldl (\<lambda>newestN n. if CreatedAt newestN < CreatedAt n \<and> IsValid n then n else newestN)
                   (hd nonces) nonces
           in if IsValid newestN = False then (Inl ErrTokenNotFound, st) else (Inr newestN, st))"

text \<open>One pass of the sweeper (the \<open>default\<close> branch of \<open>removeExpired\<close>), at time \<open>t\<close>.\<close>

definition inmem_sweep :: "inMemStore \<Rightarrow> Time \<Rightarrow> inMemStore" where
  "inmem_sweep st t = filter (\<lambda>(k, v). \<not> Before (ExpiresAt v) t) st"

section \<open>The database service (service.sqlx.go)\<close>

text \<open>
  The table \<open>nonce\<close> is the list of its rows, in the order a \<open>SELECT\<close> returns them.
  The database is outside of the package and any call to it may fail: \<open>faults\<close> says, for
  the calls to come, which ones fail (none once the list is used up), and \<open>driverCall\<close>
  takes the next one.
\<close>

record DB =
  rows :: "Nonce list"
  faults :: "bool list"

definition driverCall :: "DB \<Rightarrow> bool \<times> DB" where
  "driverCall d = (case faults d of [] \<Rightarrow> (False, d) | f # fs \<Rightarrow> (f, d\<lparr>faults := fs\<rparr>))"

text \<open>\<open>db.Get\<close> with a \<open>SELECT\<close>: the first row of the condition, or \<open>sql.ErrNoRows\<close>.\<close>

definition db_Get :: "DB \<Rightarrow> (Nonce \<Rightarrow> bool) \<Rightarrow> (error + Nonce) \<times> DB" where
  "db_Get d cond =
     (let (failed, d1) = driverCall d
      in if failed then (Inl ErrDriver, d1)
         else case find cond (rows d1) of
                None \<Rightarrow> (Inl ErrNoRows, d1)
              | Some n \<Rightarrow> (Inr n, d1))"

text \<open>
  The transaction every writing method runs: \<open>Beginx\<close>, the statement (\<open>Rollback\<close> when
  it fails), \<open>Commit\<close>, returning at the first error. The statement is a function on the
  rows, applied when the transaction commits.
\<close>

definition db_Transaction :: "DB \<Rightarrow> (Nonce list \<Rightarrow> Nonce list) \<Rightarrow> error option \<times> DB" where
  "db_Transaction d stmt =
     (let (beginFailed, d1) = driverCall d
      in if beginFailed then (Some ErrDriver, d1)
         else let (execFailed, d2) = driverCall d1
              in if execFailed then (Some ErrDriver, snd (driverCall d2))
                 else let (commitFailed, d3) = driverCall d2
                      in if commitFailed then (Some ErrDriver, d3)
                         else (None, d3\<lparr>rows := stmt (rows d3)\<rparr>))"

definition sqlx_saveNonce :: "DB \<Rightarrow> uuid \<Rightarrow> Nonce \<Rightarrow> error option \<times> Nonce \<times> DB" where
  "sqlx_saveNonce d newID n0 =
     (if ID n0 = uuid_Nil
      then let n = n0\<lparr>ID := newID\<rparr>;
               (err, d1) = db_Transaction d (\<lambda>rs. rs @ [n])
           in (err, n, d1)
      else let (err, d1) =
                 db_Transaction d
                   (map (\<lambda>r. if ID r = ID n0 then r\<lparr>IsUsed := IsUsed n0, IsValid := IsValid n0\<rparr> else r))
           in (err, n0, d1))"

definition sqlx_New ::
  "DB \<Rightarrow> error + byte list \<Rightarrow> Time \<Rightarrow> uuid \<Rightarrow> string \<Rightarrow> uuid \<Rightarrow> Duration
     \<Rightarrow> (error + Nonce) \<times> DB" where
  "sqlx_New d rnd t newID action uid expiresIn =
     (case newNonce rnd t action uid expiresIn of
        Inl err \<Rightarrow> (Inl err, d)
      | Inr n0 \<Rightarrow>
          (case sqlx_saveNonce d newID n0 of
             (Some err, n, d1) \<Rightarrow> (Inl err, d1)
           | (None, n, d1) \<Rightarrow>
               (case db_Transaction d1 (map (invalidate n)) of
                  (Some err, d2) \<Rightarrow> (Inl err, d2)
                | (None, d2) \<Rightarrow> (Inr n, d2))))"

definition sqlx_Check :: "DB \<Rightarrow> string \<Rightarrow> string \<Rightarrow> uuid \<Rightarrow> Time \<Rightarrow> error option \<times> DB" where
  "sqlx_Check d token action uid now =
     (case checkToken token of
        Some err \<Rightarrow> (Some err, d)
      | None \<Rightarrow>
          (case db_Get d (\<lambda>r. Token r = token) of
             (Inl err, d1) \<Rightarrow> (if err = ErrNoRows then (Some ErrTokenNotFound, d1) else (Some err, d1))
           | (Inr n, d1) \<Rightarrow> (checkNonce n action uid now, d1)))"

definition sqlx_Consume :: "DB \<Rightarrow> string \<Rightarrow> (error + Nonce) \<times> DB" where
  "sqlx_Consume d token =
     (case checkToken token of
        Some err \<Rightarrow> (Inl err, d)
      | None \<Rightarrow>
          (case db_Get d (\<lambda>r. Token r = token) of
             (Inl err, d1) \<Rightarrow> (if err = ErrNoRows then (Inl ErrTokenNotFound, d1) else (Inl err, d1))
           | (Inr n, d1) \<Rightarrow>
               if IsUsed n = True then (Inl ErrTokenUsed, d1)
               else (case db_Transaction d1 (map (\<lambda>r. if Token r = token then r\<lparr>IsUsed := True\<rparr> else r)) of
                       (Some err, d2) \<Rightarrow> (Inl err, d2)
                     | (None, d2) \<Rightarrow> (Inr (n\<lparr>IsUsed := True\<rparr>), d2))))"

definition sqlx_CheckThenConsume ::
  "DB \<Rightarrow> string \<Rightarrow> string \<Rightarrow> uuid \<Rightarrow> Time \<Rightarrow> (error + Nonce) \<times> DB" where
  "sqlx_CheckThenConsume d token action uid now =
     (case sqlx_Check d token action uid now of
        (Some err, d1) \<Rightarrow> (Inl err, d1)
      | (None, d1) \<Rightarrow> sqlx_Consume d1 token)"

definition sqlx_Get :: "DB \<Rightarrow> string \<Rightarrow> uuid \<Rightarrow> (error + Nonce) \<times> DB" where
  "sqlx_Get d action uid =
     (case db_Get d (\<lambda>r. Action r = action \<and> UserID r = uid \<and> IsValid r) of
        (Inl err, d1) \<Rightarrow> (if err = ErrNoRows then (Inl ErrTokenNotFound, d1) else (Inl err, d1))
      | (Inr n, d1) \<Rightarrow> (Inr n, d1))"


declare TrimLeftSpace.simps [simp del]
declare TrimRightSpace.simps [simp del]
declare decimal.simps [simp del]

section \<open>The sweeper task and Shutdown\<close>

text \<open>
  Each service starts one goroutine running \<open>removeExpired\<close>: a loop around a
  \<open>select\<close> that receives from the channel \<open>quit\<close> and returns when a sender is
  waiting, and otherwise sweeps the store and sleeps. \<open>Shutdown\<close> sends on \<open>quit\<close>.
  The channel has no buffer and is never closed: a send waits until the sweeper receives.
  The service with its goroutines is a transition system. \<open>task\<close> says where the sweeper
  is, \<open>blocked\<close> counts the callers of \<open>Shutdown\<close> waiting in the send, and
  \<open>returned\<close> the calls of \<open>Shutdown\<close> that have returned. The steps are: a caller
  enters \<open>Shutdown\<close>; the sweeper, at the \<open>select\<close>, receives from a waiting caller
  and returns, which lets that caller return; the sweeper, with no caller waiting, takes the
  \<open>default\<close> branch, sweeps at the current time and goes to sleep, or panics where the
  pass does; the sleep ends; another method changes the store. A panic ends the program.
\<close>

datatype sweeper = Polling | Sleeping | Exited | Panicked

record 's service =
  store :: 's
  task :: sweeper
  blocked :: nat
  returned :: nat

inductive step :: "('s \<Rightarrow> Time \<Rightarrow> 's option) \<Rightarrow> 's service \<Rightarrow> 's service \<Rightarrow> bool"
  for sweep :: "'s \<Rightarrow> Time \<Rightarrow> 's option" where
  call: "task c \<noteq> Panicked \<Longrightarrow> step sweep c (c\<lparr>blocked := blocked c + 1\<rparr>)"
| quit: "task c = Polling \<Longrightarrow> 0 < blocked c \<Longrightarrow>
    step sweep c (c\<lparr>task := Exited, blocked := blocked c - 1, returned := returned c + 1\<rparr>)"
| tick: "task c = Polling \<Longrightarrow> blocked c = 0 \<Longrightarrow> sweep (store c) t = Some s' \<Longrightarrow>
    step sweep c (c\<lparr>store := s', task := Sleeping\<rparr>)"
| panic: "task c = Polling \<Longrightarrow> blocked c = 0 \<Longrightarrow> sweep (store c) t = None \<Longrightarrow>
    step sweep c (c\<lparr>task := Panicked\<rparr>)"
| wake: "task c = Sleeping \<Longrightarrow> step sweep c (c\<lparr>task := Polling\<rparr>)"
| other: "task c \<noteq> Panicked \<Longrightarrow> step sweep c (c\<lparr>store := s'\<rparr>)"

code_pred step .

text \<open>A pass of the in-memory sweeper has no failure.\<close>

definition inmem_tick :: "inMemStore \<Rightarrow> Time \<Rightarrow> inMemStore option" where
  "inmem_tick st t = Some (inmem_sweep st t)"

section \<open>Sample data\<close>

text \<open>Two well-formed tokens, and a stored nonce of user 7 for the action \<open>reset\<close>.\<close>

definition tokA :: string where
  "tokA = replicate 88 (CHR ''a'')"

definition tokB :: string where
  "tokB = replicate 88 (CHR ''b'')"

definition nonceA :: Nonce where
  "nonceA = \<lparr>ID = 1, UserID = 7, Token = tokA, Action = ''reset'', Salt = [],
     IsUsed = False, IsValid = True, CreatedAt = 10, ExpiresAt = 70\<rparr>"

definition nonceB :: Nonce where
  "nonceB = \<lparr>ID = 2, UserID = 7, Token = tokB, Action = ''reset'', Salt = [],
     IsUsed = False, IsValid = False, CreatedAt = 20, ExpiresAt = 80\<rparr>"

section \<open>Basic facts\<close>

subsection \<open>The sample tokens and a database that answers\<close>

lemma checkToken_tokA: "checkToken tokA = None"
  unfolding tokA_def by code_simp

lemma checkToken_tokB: "checkToken tokB = None"
  unfolding tokB_def by code_simp

lemma tokA_neq_tokB: "tokA \<noteq> tokB"
  by (simp add: tokA_def tokB_def)

lemma driverCall_ok: "faults d = [] \<Longrightarrow> driverCall d = (False, d)"
  by (simp add: driverCall_def)

lemma db_Get_ok:
  "faults d = [] \<Longrightarrow>
   db_Get d cond = (case find cond (rows d) of None \<Rightarrow> (Inl ErrNoRows, d) | Some n \<Rightarrow> (Inr n, d))"
  by (simp add: db_Get_def driverCall_ok)

lemma db_Transaction_ok:
  "faults d = [] \<Longrightarrow> db_Transaction d stmt = (None, d\<lparr>rows := stmt (rows d)\<rparr>)"
  by (simp add: db_Transaction_def driverCall_ok)

lemma rows_driverCall: "rows (snd (driverCall d)) = rows d"
  by (simp add: driverCall_def split: list.splits)

lemma rows_db_Get: "rows (snd (db_Get d cond)) = rows d"
  using rows_driverCall [of d]
  by (auto simp: db_Get_def split: prod.splits option.splits)

subsection \<open>White space\<close>

text \<open>
  \<open>TrimSpace\<close> leaves nothing exactly when the string is a sequence of white-space
  runes: this is what an empty or all-white-space token is.
\<close>

lemma spaceRunes_nonempty: "e \<in> set spaceRunes \<Longrightarrow> e \<noteq> []"
  unfolding spaceRunes_def by (simp, blast)

lemma leadingSpace_append_all: "\<forall>e\<in>set spaceRunes. leadingSpace (e @ s) = length e"
  by (simp add: leadingSpace_def spaceRunes_def)

lemma leadingSpace_append: "e \<in> set spaceRunes \<Longrightarrow> leadingSpace (e @ s) = length e"
  using leadingSpace_append_all by blast

lemma leadingSpace_take:
  assumes "leadingSpace s \<noteq> 0"
  shows "take (leadingSpace s) s \<in> set spaceRunes"
proof -
  from assms obtain e where f: "find (\<lambda>e. take (length e) s = e) spaceRunes = Some e"
    by (auto simp: leadingSpace_def split: option.splits)
  then have "e \<in> set spaceRunes" and "take (length e) s = e"
    by (auto simp: find_Some_iff)
  with f show ?thesis by (simp add: leadingSpace_def)
qed

lemma trailingSpace_drop:
  assumes "trailingSpace s \<noteq> 0"
  shows "drop (length s - trailingSpace s) s \<in> set spaceRunes"
proof -
  from assms obtain e where
    f: "find (\<lambda>e. length e \<le> length s \<and> drop (length s - length e) s = e) spaceRunes = Some e"
    by (auto simp: trailingSpace_def split: option.splits)
  then have "e \<in> set spaceRunes" and "drop (length s - length e) s = e"
    by (auto simp: find_Some_iff)
  with f show ?thesis by (simp add: trailingSpace_def)
qed

lemma TrimLeftSpace_no_leading: "leadingSpace (TrimLeftSpace s) = 0 \<or> TrimLeftSpace s = []"
proof (induction s rule: TrimLeftSpace.induct)
  case (1 s)
  show ?case
  proof (cases "leadingSpace s = 0 \<or> s = []")
    case True
    then have "TrimLeftSpace s = s" by (simp add: TrimLeftSpace.simps [of s])
    with True show ?thesis by auto
  next
    case False
    then have "TrimLeftSpace s = TrimLeftSpace (drop (leadingSpace s) s)"
      by (simp add: TrimLeftSpace.simps [of s])
    with "1.IH" False show ?thesis by simp
  qed
qed

lemma TrimLeftSpace_empty_concat:
  "TrimLeftSpace s = [] \<Longrightarrow> \<exists>rs. set rs \<subseteq> set spaceRunes \<and> s = concat rs"
proof (induction s rule: TrimLeftSpace.induct)
  case (1 s)
  show ?case
  proof (cases "leadingSpace s = 0 \<or> s = []")
    case True
    then have "TrimLeftSpace s = s" by (simp add: TrimLeftSpace.simps [of s])
    with "1.prems" have "set [] \<subseteq> set spaceRunes \<and> s = concat []" by simp
    then show ?thesis by blast
  next
    case False
    then have "TrimLeftSpace s = TrimLeftSpace (drop (leadingSpace s) s)"
      by (simp add: TrimLeftSpace.simps [of s])
    with "1.prems" "1.IH" False obtain rs where
      rs: "set rs \<subseteq> set spaceRunes" "drop (leadingSpace s) s = concat rs"
      by auto
    from False have "take (leadingSpace s) s \<in> set spaceRunes"
      by (simp add: leadingSpace_take)
    moreover have "concat (take (leadingSpace s) s # rs) = s"
      using rs(2) [symmetric] by simp
    ultimately have "set (take (leadingSpace s) s # rs) \<subseteq> set spaceRunes \<and>
        s = concat (take (leadingSpace s) s # rs)"
      using rs(1) by simp
    then show ?thesis by blast
  qed
qed

lemma TrimLeftSpace_concat: "set rs \<subseteq> set spaceRunes \<Longrightarrow> TrimLeftSpace (concat rs) = []"
proof (induction rs)
  case Nil
  show ?case by (simp add: TrimLeftSpace.simps [of "[]"])
next
  case (Cons e rs)
  then have e: "e \<in> set spaceRunes" and "TrimLeftSpace (concat rs) = []" by simp_all
  moreover from e have "e \<noteq> []" by (rule spaceRunes_nonempty)
  ultimately show ?case
    by (simp add: TrimLeftSpace.simps [of "e @ concat rs"] leadingSpace_append)
qed

lemma TrimRightSpace_empty_concat:
  "TrimRightSpace s = [] \<Longrightarrow> \<exists>rs. set rs \<subseteq> set spaceRunes \<and> s = concat rs"
proof (induction s rule: TrimRightSpace.induct)
  case (1 s)
  show ?case
  proof (cases "trailingSpace s = 0 \<or> s = []")
    case True
    then have "TrimRightSpace s = s" by (simp add: TrimRightSpace.simps [of s])
    with "1.prems" have "set [] \<subseteq> set spaceRunes \<and> s = concat []" by simp
    then show ?thesis by blast
  next
    case False
    then have "TrimRightSpace s = TrimRightSpace (take (length s - trailingSpace s) s)"
      by (simp add: TrimRightSpace.simps [of s])
    with "1.prems" "1.IH" False obtain rs where
      rs: "set rs \<subseteq> set spaceRunes" "take (length s - trailingSpace s) s = concat rs"
      by auto
    from False have "drop (length s - trailingSpace s) s \<in> set spaceRunes"
      by (simp add: trailingSpace_drop)
    moreover have "concat (rs @ [drop (length s - trailingSpace s) s]) = s"
      using rs(2) [symmetric] by simp
    ultimately have "set (rs @ [drop (length s - trailingSpace s) s]) \<subseteq> set spaceRunes \<and>
        s = concat (rs @ [drop (length s - trailingSpace s) s])"
      using rs(1) by simp
    then show ?thesis by blast
  qed
qed

lemma TrimSpace_empty_iff:
  "TrimSpace s = [] \<longleftrightarrow> (\<exists>rs. set rs \<subseteq> set spaceRunes \<and> s = concat rs)"
proof
  assume "TrimSpace s = []"
  then obtain rs where rs: "set rs \<subseteq> set spaceRunes" "TrimLeftSpace s = concat rs"
    using TrimRightSpace_empty_concat by (auto simp: TrimSpace_def)
  have "TrimLeftSpace s = []"
  proof (cases rs)
    case Nil
    with rs show ?thesis by simp
  next
    case (Cons e rs')
    with rs have "leadingSpace (TrimLeftSpace s) = length e" and "e \<noteq> []"
      by (simp_all add: leadingSpace_append spaceRunes_nonempty)
    with TrimLeftSpace_no_leading [of s] show ?thesis by simp
  qed
  then show "\<exists>rs. set rs \<subseteq> set spaceRunes \<and> s = concat rs"
    by (rule TrimLeftSpace_empty_concat)
next
  assume "\<exists>rs. set rs \<subseteq> set spaceRunes \<and> s = concat rs"
  then have "TrimLeftSpace s = []" by (auto simp: TrimLeftSpace_concat)
  then show "TrimSpace s = []"
    by (simp add: TrimSpace_def TrimRightSpace.simps [of "[]"])
qed

lemma checkToken_blank:
  "\<exists>rs. set rs \<subseteq> set spaceRunes \<and> token = concat rs \<Longrightarrow> checkToken token = Some ErrNoToken"
  using TrimSpace_empty_iff [of token] by (simp add: checkToken_def)

lemma checkToken_wrong_length:
  "\<not> (\<exists>rs. set rs \<subseteq> set spaceRunes \<and> token = concat rs) \<Longrightarrow> length token \<noteq> 88 \<Longrightarrow>
   checkToken token = Some ErrInvalidToken"
  using TrimSpace_empty_iff [of token] by (simp add: checkToken_def)

lemma blank_two_spaces: "\<exists>rs. set rs \<subseteq> set spaceRunes \<and> ''  '' = concat rs"
proof -
  have "set [ [CHR 0x20], [CHR 0x20] ] \<subseteq> set spaceRunes \<and>
      ''  '' = concat [ [CHR 0x20], [CHR 0x20] ]"
    by (simp add: spaceRunes_def)
  then show ?thesis by blast
qed

lemma not_blank_InvalidToken: "\<not> (\<exists>rs. set rs \<subseteq> set spaceRunes \<and> ''InvalidToken'' = concat rs)"
proof -
  have "TrimSpace ''InvalidToken'' \<noteq> []" by code_simp
  then show ?thesis by (simp add: TrimSpace_empty_iff)
qed

subsection \<open>Saving and sweeping in memory\<close>

lemma inmem_saveNonce_map_of:
  "inmem_saveNonce st newID n0 = (n, st') \<Longrightarrow>
   n = (if ID n0 = uuid_Nil then n0\<lparr>ID := newID\<rparr> else n0) \<and> map_of st' = (map_of st)(Token n0 \<mapsto> n)"
  by (auto simp: inmem_saveNonce_def Let_def update_conv')


subsection \<open>Generating a nonce\<close>

lemma length_EncodeToString: "length (EncodeToString al bs) = 4 * ((length bs + 2) div 3)"
proof (induction al bs rule: EncodeToString.induct)
  case (1 al a b c rest)
  have "(length rest + 2 + 3) div 3 = (length rest + 2) div 3 + 1"
    by (simp only: div_add_self2)
  with 1 show ?case by (simp add: add.commute)
qed simp_all

lemma length_bytes64: "length (bytes64 w) = 8"
  by (simp add: bytes64_def)

lemma length_Sum512: "length (Sum512 msg) = 64"
  by (simp add: Sum512_def length_bytes64 split: prod.splits)

lemma newNonce_Inr:
  "newNonce (Inr rawSalt) t action uid expiresIn =
     Inr \<lparr>ID = uuid_Nil, UserID = uid,
          Token = EncodeToString encodeURL (Sum512 (bytesOf
            (action @ ''::'' @ uuid_String uid @ ''::'' @ FormatInt (Unix t) @ ''::'' @
             EncodeToString encodeStd rawSalt))),
          Action = action, Salt = EncodeToString encodeStd rawSalt,
          IsUsed = False, IsValid = True, CreatedAt = Unix t,
          ExpiresAt = Truncate (Add t expiresIn) Second\<rparr>"
  unfolding newNonce_def Let_def by simp

lemma Truncate_whole_seconds:
  assumes "expiresIn mod Second = 0"
  shows "Truncate (Add t expiresIn) Second = Unix t * Second + expiresIn"
proof -
  have "(t + expiresIn - zeroTime) mod Second = (t + expiresIn) mod Second"
    by (simp add: zeroTime_def)
  also have "\<dots> = (t + expiresIn mod Second) mod Second"
    by (simp add: mod_add_right_eq)
  also from assms have "\<dots> = t mod Second"
    by simp
  finally show ?thesis
    by (simp add: Truncate_def Add_def Unix_def Second_def minus_mod_eq_div_mult [symmetric])
qed

lemma newNonce_fields:
  assumes "newNonce (Inr rawSalt) t action uid expiresIn = Inr n"
  shows "length (Token n) = 88" and "\<not> IsUsed n" and "IsValid n" and "ID n = uuid_Nil"
    and "UserID n = uid" and "Action n = action" and "CreatedAt n = Unix t"
    and "ExpiresAt n = Truncate (Add t expiresIn) Second"
  using assms unfolding newNonce_Inr
  by (auto simp: length_EncodeToString length_Sum512)

lemma inmem_New_Inr:
  assumes "newNonce (Inr rawSalt) t action uid expiresIn = Inr n0"
  shows "inmem_New st (Inr rawSalt) t newID action uid expiresIn =
     (Inr (n0\<lparr>ID := newID\<rparr>),
      map (\<lambda>(k, v). (k, invalidate (n0\<lparr>ID := newID\<rparr>) v))
        (AList.update (Token n0) (n0\<lparr>ID := newID\<rparr>) st))"
  using assms newNonce_fields(4) [OF assms]
  by (simp add: inmem_New_def inmem_saveNonce_def Let_def)

lemma sqlx_New_Inr:
  assumes "newNonce (Inr rawSalt) t action uid expiresIn = Inr n0" and "faults d = []"
  shows "sqlx_New d (Inr rawSalt) t newID action uid expiresIn =
     (Inr (n0\<lparr>ID := newID\<rparr>),
      d\<lparr>rows := map (invalidate (n0\<lparr>ID := newID\<rparr>)) (rows d) @ [n0\<lparr>ID := newID\<rparr>]\<rparr>)"
  using assms newNonce_fields(4) [OF assms(1)]
  by (simp add: sqlx_New_def sqlx_saveNonce_def db_Transaction_ok Let_def invalidate_def)

subsection \<open>Invalidation\<close>

lemma invalidate_self: "invalidate n n = n"
  by (simp add: invalidate_def)

lemma invalidate_other:
  "ID v \<noteq> ID n \<Longrightarrow>
   invalidate n v = (if UserID v = UserID n \<and> Action v = Action n then v\<lparr>IsValid := False\<rparr> else v)"
  by (cases "IsValid v") (simp_all add: invalidate_def)

lemma filter_map_update_single:
  assumes "\<forall>v\<in>snd ` set st. \<not> P (g v)" and "P (g n)"
  shows "filter P (map (\<lambda>p. g (snd p)) (AList.update k n st)) = [g n]"
  using assms by (induction st) auto

lemma length_filter_map_le:
  assumes "\<And>v. P (g v) \<Longrightarrow> P v"
  shows "length (filter P (map (\<lambda>p. g (snd p)) st)) \<le> length (filter P (map snd st))"
  using assms by (induction st) auto

lemma length_filter_map_update_le:
  assumes "\<And>v. P (g v) \<Longrightarrow> P v" and "\<not> P (g n)"
  shows "length (filter P (map (\<lambda>p. g (snd p)) (AList.update k n st)))
           \<le> length (filter P (map snd st))"
  using assms
proof (induction st)
  case Nil
  then show ?case by simp
next
  case (Cons p ps)
  show ?case
  proof (cases "fst p = k")
    case True
    with Cons.prems length_filter_map_le [of P g ps] show ?thesis
      by (auto intro: le_SucI)
  next
    case False
    with Cons show ?thesis by auto
  qed
qed

lemma none_valid_after:
  "filter (\<lambda>v. IsValid v \<and> UserID v = uid \<and> Action v = action)
     (map (\<lambda>v. if UserID v = uid \<and> Action v = action then v\<lparr>IsValid := False\<rparr> else v) rs) = []"
  by (induction rs) simp_all

subsection \<open>The newest valid nonce\<close>

lemma newest_fold:
  fixes x :: Nonce
  defines "f \<equiv> \<lambda>newestN n. if CreatedAt newestN < CreatedAt n \<and> IsValid n then n else newestN"
  shows "(foldl f x xs = x \<or>
            (foldl f x xs \<in> set xs \<and> IsValid (foldl f x xs) \<and> CreatedAt x < CreatedAt (foldl f x xs))) \<and>
         CreatedAt x \<le> CreatedAt (foldl f x xs) \<and>
         (\<forall>n\<in>set xs. IsValid n \<longrightarrow> CreatedAt n \<le> CreatedAt (foldl f x xs))"
proof (induction xs arbitrary: x)
  case Nil
  show ?case by simp
next
  case (Cons y ys)
  show ?case
  proof (cases "CreatedAt x < CreatedAt y \<and> IsValid y")
    case True
    then have "foldl f x (y # ys) = foldl f y ys" by (simp add: f_def)
    with Cons [of y] True show ?thesis by auto
  next
    case False
    then have "foldl f x (y # ys) = foldl f x ys" by (auto simp: f_def)
    with Cons [of x] False show ?thesis by auto
  qed
qed

lemma inmem_Get_unfold:
  "inmem_Get st action uid =
     (if filter (\<lambda>n. Action n = action \<and> UserID n = uid) (map snd st) = [] then (Inr zeroNonce, st)
      else
        let newestN =
              foldl (\<lambda>newestN n. if CreatedAt newestN < CreatedAt n \<and> IsValid n then n else newestN)
                zeroNonce (filter (\<lambda>n. Action n = action \<and> UserID n = uid) (map snd st))
        in if \<not> IsValid newestN then (Inl ErrTokenNotFound, st) else (Inr newestN, st))"
proof (cases "filter (\<lambda>n. Action n = action \<and> UserID n = uid) (map snd st)")
  case Nil
  then show ?thesis
    by (simp add: inmem_Get_def Let_def del: filter_map)
next
  case (Cons m ms)
  then show ?thesis
    by (simp add: inmem_Get_def Let_def zeroNonce_def del: filter_map)
qed

lemma inmem_Get_empty_store: "inmem_Get [] action uid = (Inr zeroNonce, [])"
  by (simp add: inmem_Get_unfold)

subsection \<open>After the sweeper has exited\<close>

lemma exited_step:
  assumes "step sweep c c'" and "task c = Exited"
  shows "task c' = Exited \<and> returned c' = returned c \<and> blocked c \<le> blocked c'"
  using assms by (cases rule: step.cases) auto

lemma exited_forever:
  assumes "(step sweep)\<^sup>*\<^sup>* c c'" and "task c = Exited"
  shows "task c' = Exited \<and> returned c' = returned c \<and> blocked c \<le> blocked c'"
  using assms
proof (induction rule: rtranclp_induct)
  case base
  then show ?case by simp
next
  case (step y z)
  then have y: "task y = Exited \<and> returned y = returned c \<and> blocked c \<le> blocked y"
    by simp
  with step.hyps(2) exited_step [of sweep y z] show ?case by auto
qed

section \<open>The order of the checks\<close>

text \<open>
  Claim C3. When the token has the right shape and the store holds a nonce \<open>n\<close> for it,
  \<open>Check\<close> of either service answers, in this order: the invalid-token error when
  \<open>n\<close> is not valid or its action or its user differs from the one given; otherwise the
  used-token error when \<open>n\<close> is used; otherwise the expired error when \<open>ExpiresAt\<close> is
  not after the current time; otherwise no error. (For the database service, when the
  database answers.)
\<close>

theorem Check_applies_checks_in_order:
  assumes "checkToken token = None"
  shows "(map_of st token = Some n \<longrightarrow>
            fst (inmem_Check st token action uid now) =
              (if \<not> IsValid n \<or> Action n \<noteq> action \<or> UserID n \<noteq> uid then Some ErrInvalidToken
               else if IsUsed n then Some ErrTokenUsed
               else if \<not> now < ExpiresAt n then Some ErrTokenExpired
               else None)) \<and>
         (faults d = [] \<and> find (\<lambda>r. Token r = token) (rows d) = Some n \<longrightarrow>
            fst (sqlx_Check d token action uid now) =
              (if \<not> IsValid n \<or> Action n \<noteq> action \<or> UserID n \<noteq> uid then Some ErrInvalidToken
               else if IsUsed n then Some ErrTokenUsed
               else if \<not> now < ExpiresAt n then Some ErrTokenExpired
               else None))"
proof (intro conjI impI)
  assume "map_of st token = Some n"
  then have "inmem_getNonce st token = Inr n"
    by (simp add: inmem_getNonce_def)
  with assms show "fst (inmem_Check st token action uid now) =
      (if \<not> IsValid n \<or> Action n \<noteq> action \<or> UserID n \<noteq> uid then Some ErrInvalidToken
       else if IsUsed n then Some ErrTokenUsed
       else if \<not> now < ExpiresAt n then Some ErrTokenExpired
       else None)"
    by (simp add: inmem_Check_def checkNonce_def After_def)
next
  assume a: "faults d = [] \<and> find (\<lambda>r. Token r = token) (rows d) = Some n"
  then have "db_Get d (\<lambda>r. Token r = token) = (Inr n, d)"
    by (simp add: db_Get_ok)
  with assms show "fst (sqlx_Check d token action uid now) =
      (if \<not> IsValid n \<or> Action n \<noteq> action \<or> UserID n \<noteq> uid then Some ErrInvalidToken
       else if IsUsed n then Some ErrTokenUsed
       else if \<not> now < ExpiresAt n then Some ErrTokenExpired
       else None)"
    by (simp add: sqlx_Check_def checkNonce_def After_def)
qed

text \<open>
  The stored nonce \<open>nonceA\<close> expires at 70: checked at 50 it passes, at 70 it is expired,
  and with another action it is invalid before it is expired.
\<close>

theorem Check_applies_checks_in_order_witness:
  "checkToken tokA = None \<and> map_of [(tokA, nonceA)] tokA = Some nonceA \<and>
   fst (inmem_Check [(tokA, nonceA)] tokA ''reset'' 7 50) = None \<and>
   fst (sqlx_Check \<lparr>rows = [nonceA], faults = []\<rparr> tokA ''reset'' 7 50) = None \<and>
   fst (inmem_Check [(tokA, nonceA)] tokA ''reset'' 7 70) = Some ErrTokenExpired \<and>
   fst (sqlx_Check \<lparr>rows = [nonceA], faults = []\<rparr> tokA ''login'' 7 70) = Some ErrInvalidToken"
  using Check_applies_checks_in_order [OF checkToken_tokA, of "[(tokA, nonceA)]" nonceA "''reset''" 7 50
      "\<lparr>rows = [nonceA], faults = []\<rparr>"]
    Check_applies_checks_in_order [OF checkToken_tokA, of "[(tokA, nonceA)]" nonceA "''reset''" 7 70
      "\<lparr>rows = [nonceA], faults = []\<rparr>"]
    Check_applies_checks_in_order [OF checkToken_tokA, of "[(tokA, nonceA)]" nonceA "''login''" 7 70
      "\<lparr>rows = [nonceA], faults = []\<rparr>"]
  by (simp add: checkToken_tokA nonceA_def)

section \<open>Malformed tokens\<close>

text \<open>
  Claim C6. A token that is empty or made of white space only (a concatenation of
  white-space runes) gets the no-token error from \<open>Check\<close>, \<open>Consume\<close> and
  \<open>CheckThenConsume\<close> of both services, and a token that is not blank and not 88 bytes
  long gets the invalid-token error. The storage is not accessed: the answer is the same
  for every store, the store is returned as it was, and so is the database with all of its
  pending faults, which a call to it would have used up.
\<close>

theorem malformed_token_rejected_before_storage:
  "((\<exists>rs. set rs \<subseteq> set spaceRunes \<and> token = concat rs) \<longrightarrow>
      inmem_Check st token action uid now = (Some ErrNoToken, st) \<and>
      inmem_Consume st newID token = (Inl ErrNoToken, st) \<and>
      inmem_CheckThenConsume st newID token action uid now = (Inl ErrNoToken, st) \<and>
      sqlx_Check d token action uid now = (Some ErrNoToken, d) \<and>
      sqlx_Consume d token = (Inl ErrNoToken, d) \<and>
      sqlx_CheckThenConsume d token action uid now = (Inl ErrNoToken, d)) \<and>
   (\<not> (\<exists>rs. set rs \<subseteq> set spaceRunes \<and> token = concat rs) \<and> length token \<noteq> 88 \<longrightarrow>
      inmem_Check st token action uid now = (Some ErrInvalidToken, st) \<and>
      inmem_Consume st newID token = (Inl ErrInvalidToken, st) \<and>
      inmem_CheckThenConsume st newID token action uid now = (Inl ErrInvalidToken, st) \<and>
      sqlx_Check d token action uid now = (Some ErrInvalidToken, d) \<and>
      sqlx_Consume d token = (Inl ErrInvalidToken, d) \<and>
      sqlx_CheckThenConsume d token action uid now = (Inl ErrInvalidToken, d))"
proof (intro conjI impI)
  assume "\<exists>rs. set rs \<subseteq> set spaceRunes \<and> token = concat rs"
  then have c: "checkToken token = Some ErrNoToken" by (rule checkToken_blank)
  then show "inmem_Check st token action uid now = (Some ErrNoToken, st)"
    and "sqlx_Check d token action uid now = (Some ErrNoToken, d)"
    by (simp_all add: inmem_Check_def sqlx_Check_def)
  then show "inmem_CheckThenConsume st newID token action uid now = (Inl ErrNoToken, st)"
    and "sqlx_CheckThenConsume d token action uid now = (Inl ErrNoToken, d)"
    by (simp_all add: inmem_CheckThenConsume_def sqlx_CheckThenConsume_def)
  from c show "inmem_Consume st newID token = (Inl ErrNoToken, st)"
    and "sqlx_Consume d token = (Inl ErrNoToken, d)"
    by (simp_all add: inmem_Consume_def sqlx_Consume_def)
next
  assume "\<not> (\<exists>rs. set rs \<subseteq> set spaceRunes \<and> token = concat rs) \<and> length token \<noteq> 88"
  then have c: "checkToken token = Some ErrInvalidToken" by (simp add: checkToken_wrong_length)
  then show "inmem_Check st token action uid now = (Some ErrInvalidToken, st)"
    and "sqlx_Check d token action uid now = (Some ErrInvalidToken, d)"
    by (simp_all add: inmem_Check_def sqlx_Check_def)
  then show "inmem_CheckThenConsume st newID token action uid now = (Inl ErrInvalidToken, st)"
    and "sqlx_CheckThenConsume d token action uid now = (Inl ErrInvalidToken, d)"
    by (simp_all add: inmem_CheckThenConsume_def sqlx_CheckThenConsume_def)
  from c show "inmem_Consume st newID token = (Inl ErrInvalidToken, st)"
    and "sqlx_Consume d token = (Inl ErrInvalidToken, d)"
    by (simp_all add: inmem_Consume_def sqlx_Consume_def)
qed

text \<open>
  Two spaces, and the token \<open>InvalidToken\<close> of the tests, on a database whose next call
  would fail.
\<close>

theorem malformed_token_rejected_before_storage_witness:
  "inmem_Check [(tokA, nonceA)] ''  '' ''reset'' 7 50 = (Some ErrNoToken, [(tokA, nonceA)]) \<and>
   sqlx_Consume \<lparr>rows = [nonceA], faults = [True]\<rparr> ''  ''
     = (Inl ErrNoToken, \<lparr>rows = [nonceA], faults = [True]\<rparr>) \<and>
   inmem_CheckThenConsume [(tokA, nonceA)] 9 ''InvalidToken'' ''reset'' 7 50
     = (Inl ErrInvalidToken, [(tokA, nonceA)]) \<and>
   sqlx_Check \<lparr>rows = [nonceA], faults = [True]\<rparr> ''InvalidToken'' ''reset'' 7 50
     = (Some ErrInvalidToken, \<lparr>rows = [nonceA], faults = [True]\<rparr>)"
  using malformed_token_rejected_before_storage [of "''  ''" "[(tokA, nonceA)]" "''reset''" 7 50 9
      "\<lparr>rows = [nonceA], faults = [True]\<rparr>"]
    malformed_token_rejected_before_storage [of "''InvalidToken''" "[(tokA, nonceA)]" "''reset''" 7 50 9
      "\<lparr>rows = [nonceA], faults = [True]\<rparr>"]
    blank_two_spaces not_blank_InvalidToken
  by simp

section \<open>Check changes nothing\<close>

text \<open>
  Claim C9. \<open>Check\<close> never changes what is stored, whatever it answers: the in-memory
  store it returns is the one it was given, and the rows of the table are the same after
  the call as before.
\<close>

theorem Check_never_mutates:
  "snd (inmem_Check st token action uid now) = st \<and>
   rows (snd (sqlx_Check d token action uid now)) = rows d"
proof
  show "snd (inmem_Check st token action uid now) = st"
    by (simp add: inmem_Check_def split: option.splits sum.splits)
  show "rows (snd (sqlx_Check d token action uid now)) = rows d"
    using rows_db_Get [of d "\<lambda>r. Token r = token"]
    by (auto simp: sqlx_Check_def split: option.splits sum.splits prod.splits)
qed

theorem Check_never_mutates_witness:
  "snd (inmem_Check [(tokA, nonceA)] tokA ''reset'' 7 50) = [(tokA, nonceA)] \<and>
   rows (snd (sqlx_Check \<lparr>rows = [nonceA], faults = [False]\<rparr> tokA ''reset'' 7 50)) = [nonceA]"
  using Check_never_mutates [of "[(tokA, nonceA)]" tokA "''reset''" 7 50
      "\<lparr>rows = [nonceA], faults = [False]\<rparr>"]
  by simp

section \<open>Consuming a nonce\<close>

text \<open>
  Claim C4. For a token of the right shape, \<open>Consume\<close> of either service answers
  token-not-found when the store has no nonce for the token, the used-token error when the
  nonce it finds is used, and otherwise returns the nonce with \<open>IsUsed\<close> set and stores
  it. Nothing else of the nonce is looked at (the statement holds for every \<open>n\<close>, and
  \<open>Consume\<close> takes neither an action, a user nor the time), so a superseded or expired
  nonce is consumed too. In memory the nonce is saved under its own token, after
  \<open>saveNonce\<close> has given it an ID if it had none; in the database every row of the token
  is updated. (For the database service, when the database answers.)
\<close>

theorem Consume_marks_used:
  assumes "checkToken token = None"
  shows "(map_of st token = None \<longrightarrow> inmem_Consume st newID token = (Inl ErrTokenNotFound, st)) \<and>
         (\<forall>n. map_of st token = Some n \<and> IsUsed n \<longrightarrow>
            inmem_Consume st newID token = (Inl ErrTokenUsed, st)) \<and>
         (\<forall>n. map_of st token = Some n \<and> \<not> IsUsed n \<longrightarrow>
            (\<exists>n' st'. inmem_Consume st newID token = (Inr n', st') \<and>
               n' = (if ID n = uuid_Nil then n\<lparr>IsUsed := True, ID := newID\<rparr> else n\<lparr>IsUsed := True\<rparr>) \<and>
               map_of st' = (map_of st)(Token n \<mapsto> n'))) \<and>
         (faults d = [] \<longrightarrow>
            (find (\<lambda>r. Token r = token) (rows d) = None \<longrightarrow>
               sqlx_Consume d token = (Inl ErrTokenNotFound, d)) \<and>
            (\<forall>n. find (\<lambda>r. Token r = token) (rows d) = Some n \<and> IsUsed n \<longrightarrow>
               sqlx_Consume d token = (Inl ErrTokenUsed, d)) \<and>
            (\<forall>n. find (\<lambda>r. Token r = token) (rows d) = Some n \<and> \<not> IsUsed n \<longrightarrow>
               sqlx_Consume d token =
                 (Inr (n\<lparr>IsUsed := True\<rparr>),
                  d\<lparr>rows := map (\<lambda>r. if Token r = token then r\<lparr>IsUsed := True\<rparr> else r) (rows d)\<rparr>)))"
proof (intro conjI allI impI)
  assume "map_of st token = None"
  with assms show "inmem_Consume st newID token = (Inl ErrTokenNotFound, st)"
    by (simp add: inmem_Consume_def inmem_getNonce_def)
next
  fix n assume "map_of st token = Some n \<and> IsUsed n"
  with assms show "inmem_Consume st newID token = (Inl ErrTokenUsed, st)"
    by (simp add: inmem_Consume_def inmem_getNonce_def)
next
  fix n assume a: "map_of st token = Some n \<and> \<not> IsUsed n"
  obtain n' st' where s: "inmem_saveNonce st newID (n\<lparr>IsUsed := True\<rparr>) = (n', st')"
    by (cases "inmem_saveNonce st newID (n\<lparr>IsUsed := True\<rparr>)")
  with assms a have "inmem_Consume st newID token = (Inr n', st')"
    by (simp add: inmem_Consume_def inmem_getNonce_def)
  moreover from inmem_saveNonce_map_of [OF s]
  have "n' = (if ID n = uuid_Nil then n\<lparr>IsUsed := True, ID := newID\<rparr> else n\<lparr>IsUsed := True\<rparr>)"
    and "map_of st' = (map_of st)(Token n \<mapsto> n')"
    by simp_all
  ultimately show "\<exists>n' st'. inmem_Consume st newID token = (Inr n', st') \<and>
      n' = (if ID n = uuid_Nil then n\<lparr>IsUsed := True, ID := newID\<rparr> else n\<lparr>IsUsed := True\<rparr>) \<and>
      map_of st' = (map_of st)(Token n \<mapsto> n')"
    by blast
next
  assume "faults d = []" and "find (\<lambda>r. Token r = token) (rows d) = None"
  with assms show "sqlx_Consume d token = (Inl ErrTokenNotFound, d)"
    by (simp add: sqlx_Consume_def db_Get_ok)
next
  fix n assume "faults d = []" and "find (\<lambda>r. Token r = token) (rows d) = Some n \<and> IsUsed n"
  with assms show "sqlx_Consume d token = (Inl ErrTokenUsed, d)"
    by (simp add: sqlx_Consume_def db_Get_ok)
next
  fix n assume "faults d = []" and "find (\<lambda>r. Token r = token) (rows d) = Some n \<and> \<not> IsUsed n"
  with assms show "sqlx_Consume d token =
      (Inr (n\<lparr>IsUsed := True\<rparr>),
       d\<lparr>rows := map (\<lambda>r. if Token r = token then r\<lparr>IsUsed := True\<rparr> else r) (rows d)\<rparr>)"
    by (simp add: sqlx_Consume_def db_Get_ok db_Transaction_ok)
qed

text \<open>
  \<open>nonceB\<close> is not valid any more: it is consumed all the same, and a second
  \<open>Consume\<close> finds it used.
\<close>

theorem Consume_marks_used_witness:
  "checkToken tokB = None \<and> map_of [(tokA, nonceA), (tokB, nonceB)] tokB = Some nonceB \<and>
   \<not> IsUsed nonceB \<and> \<not> IsValid nonceB \<and>
   fst (inmem_Consume [(tokA, nonceA), (tokB, nonceB)] 9 tokB) = Inr (nonceB\<lparr>IsUsed := True\<rparr>) \<and>
   map_of (snd (inmem_Consume [(tokA, nonceA), (tokB, nonceB)] 9 tokB)) tokB
     = Some (nonceB\<lparr>IsUsed := True\<rparr>) \<and>
   sqlx_Consume \<lparr>rows = [nonceA, nonceB], faults = []\<rparr> tokB
     = (Inr (nonceB\<lparr>IsUsed := True\<rparr>), \<lparr>rows = [nonceA, nonceB\<lparr>IsUsed := True\<rparr>], faults = []\<rparr>) \<and>
   sqlx_Consume \<lparr>rows = [nonceA, nonceB\<lparr>IsUsed := True\<rparr>], faults = []\<rparr> tokB
     = (Inl ErrTokenUsed, \<lparr>rows = [nonceA, nonceB\<lparr>IsUsed := True\<rparr>], faults = []\<rparr>)"
  using Consume_marks_used [OF checkToken_tokB, of "[(tokA, nonceA), (tokB, nonceB)]" 9
      "\<lparr>rows = [nonceA, nonceB], faults = []\<rparr>"]
    Consume_marks_used [OF checkToken_tokB, of "[(tokA, nonceA), (tokB, nonceB)]" 9
      "\<lparr>rows = [nonceA, nonceB\<lparr>IsUsed := True\<rparr>], faults = []\<rparr>"]
    tokA_neq_tokB
  by (auto simp: checkToken_tokB nonceA_def nonceB_def uuid_Nil_def)

section \<open>The sweep\<close>



section \<open>The nonce New returns\<close>

text \<open>
  Claim C5, amended. When the random source succeeds (and, for the database service, the
  database answers), \<open>New\<close> returns a nonce whose token has exactly 88 characters, with
  \<open>IsUsed\<close> false and \<open>IsValid\<close> true, whose \<open>CreatedAt\<close> is the whole seconds of
  the creation instant \<open>t\<close>, and whose \<open>ExpiresAt\<close> is \<open>t\<close> plus \<open>expiresIn\<close>
  truncated to whole seconds. That is \<open>CreatedAt\<close> plus \<open>expiresIn\<close> when
  \<open>expiresIn\<close> is a whole number of seconds.
\<close>

theorem New_returns_fresh_nonce:
  "(\<exists>n st'. inmem_New st (Inr rawSalt) t newID action uid expiresIn = (Inr n, st') \<and>
      length (Token n) = 88 \<and> \<not> IsUsed n \<and> IsValid n \<and> CreatedAt n = Unix t \<and>
      ExpiresAt n = Truncate (Add t expiresIn) Second \<and>
      (expiresIn mod Second = 0 \<longrightarrow> ExpiresAt n = CreatedAt n * Second + expiresIn)) \<and>
   (faults d = [] \<longrightarrow>
    (\<exists>n d'. sqlx_New d (Inr rawSalt) t newID action uid expiresIn = (Inr n, d') \<and>
      length (Token n) = 88 \<and> \<not> IsUsed n \<and> IsValid n \<and> CreatedAt n = Unix t \<and>
      ExpiresAt n = Truncate (Add t expiresIn) Second \<and>
      (expiresIn mod Second = 0 \<longrightarrow> ExpiresAt n = CreatedAt n * Second + expiresIn)))"
proof -
  obtain n0 where n0: "newNonce (Inr rawSalt) t action uid expiresIn = Inr n0"
    by (simp add: newNonce_Inr)
  let ?n = "n0\<lparr>ID := newID\<rparr>"
  have p: "length (Token ?n) = 88 \<and> \<not> IsUsed ?n \<and> IsValid ?n \<and> CreatedAt ?n = Unix t \<and>
      ExpiresAt ?n = Truncate (Add t expiresIn) Second \<and>
      (expiresIn mod Second = 0 \<longrightarrow> ExpiresAt ?n = CreatedAt ?n * Second + expiresIn)"
    using newNonce_fields [OF n0] by (simp add: Truncate_whole_seconds)
  show ?thesis
  proof (intro conjI impI)
    from p inmem_New_Inr [OF n0, of st newID]
    show "\<exists>n st'. inmem_New st (Inr rawSalt) t newID action uid expiresIn = (Inr n, st') \<and>
      length (Token n) = 88 \<and> \<not> IsUsed n \<and> IsValid n \<and> CreatedAt n = Unix t \<and>
      ExpiresAt n = Truncate (Add t expiresIn) Second \<and>
      (expiresIn mod Second = 0 \<longrightarrow> ExpiresAt n = CreatedAt n * Second + expiresIn)"
      by blast
  next
    assume "faults d = []"
    with p sqlx_New_Inr [OF n0, of d newID]
    show "\<exists>n d'. sqlx_New d (Inr rawSalt) t newID action uid expiresIn = (Inr n, d') \<and>
      length (Token n) = 88 \<and> \<not> IsUsed n \<and> IsValid n \<and> CreatedAt n = Unix t \<and>
      ExpiresAt n = Truncate (Add t expiresIn) Second \<and>
      (expiresIn mod Second = 0 \<longrightarrow> ExpiresAt n = CreatedAt n * Second + expiresIn)"
      by blast
  qed
qed

text \<open>
  A nonce created 1.6 seconds after the epoch for one minute: \<open>CreatedAt\<close> is 1 and
  \<open>ExpiresAt\<close> is 61 seconds.
\<close>

theorem New_returns_fresh_nonce_witness:
  "(60000000000 :: int) mod Second = 0 \<and>
   (\<exists>n st'. inmem_New [] (Inr (replicate 16 0)) 1600000000 9 ''reset'' 7 60000000000 = (Inr n, st') \<and>
      length (Token n) = 88 \<and> \<not> IsUsed n \<and> IsValid n \<and> CreatedAt n = 1 \<and>
      ExpiresAt n = 61000000000) \<and>
   (\<exists>n d'. sqlx_New \<lparr>rows = [], faults = []\<rparr> (Inr (replicate 16 0)) 1600000000 9 ''reset'' 7 60000000000
        = (Inr n, d') \<and>
      length (Token n) = 88 \<and> \<not> IsUsed n \<and> IsValid n \<and> CreatedAt n = 1 \<and>
      ExpiresAt n = 61000000000)"
  using New_returns_fresh_nonce [of "[]" "replicate 16 0" 1600000000 9 "''reset''" 7 60000000000
      "\<lparr>rows = [], faults = []\<rparr>"]
  by (auto simp: Second_def Unix_def)

text \<open>
  The claim as it was stated takes \<open>ExpiresAt\<close> to be \<open>CreatedAt\<close> plus
  \<open>expiresIn\<close>, truncated to whole seconds. A nonce created 1.6 seconds after the epoch
  for half a second has \<open>CreatedAt\<close> 1 and expires at 2 seconds, not at 1 second: the
  fraction of the creation instant counts.
\<close>

theorem ExpiresAt_not_from_CreatedAt_counterexample:
  "(case fst (inmem_New [] (Inr (replicate 16 0)) 1600000000 9 ''reset'' 7 500000000) of
      Inl err \<Rightarrow> False
    | Inr n \<Rightarrow> CreatedAt n = 1 \<and> ExpiresAt n = 2000000000 \<and>
        Truncate (Add (CreatedAt n * Second) 500000000) Second = 1000000000) \<and>
   (case fst (sqlx_New \<lparr>rows = [], faults = []\<rparr> (Inr (replicate 16 0)) 1600000000 9 ''reset'' 7 500000000) of
      Inl err \<Rightarrow> False
    | Inr n \<Rightarrow> CreatedAt n = 1 \<and> ExpiresAt n = 2000000000 \<and>
        Truncate (Add (CreatedAt n * Second) 500000000) Second = 1000000000)"
  by (simp add: inmem_New_Inr [OF newNonce_Inr] sqlx_New_Inr [OF newNonce_Inr]
        Unix_def Second_def Truncate_def Add_def zeroTime_def)

section \<open>How the token is derived\<close>

text \<open>
  Claim C10. The token is the URL-safe base64 encoding of the SHA-512 digest of the string
  \<open>action::uid::unixSeconds::salt\<close>, where the salt is the standard base64 encoding of
  the random bytes. So two runs with the same action, user, second of the clock and random
  bytes produce the same token, whatever the rest of the instant and the duration: only
  the random bytes are not known from the other inputs.
\<close>

theorem token_determined_by_inputs:
  assumes "newNonce (Inr rawSalt) t action uid expiresIn = Inr n"
    and "newNonce (Inr rawSalt) t' action uid expiresIn' = Inr n'"
    and "Unix t = Unix t'"
  shows "Token n = Token n' \<and>
         Token n = EncodeToString encodeURL (Sum512 (bytesOf
            (action @ ''::'' @ uuid_String uid @ ''::'' @ FormatInt (Unix t) @ ''::'' @
             EncodeToString encodeStd rawSalt)))"
  using assms unfolding newNonce_Inr by auto

text \<open>
  Two instants of the same second, and two durations.
\<close>

theorem token_determined_by_inputs_witness:
  "Unix 1761868800123456789 = Unix 1761868800999999999 \<and>
   (case (newNonce (Inr (replicate 16 0)) 1761868800123456789 ''reset'' 7 60000000000,
          newNonce (Inr (replicate 16 0)) 1761868800999999999 ''reset'' 7 0) of
      (Inr n, Inr n') \<Rightarrow> Token n = Token n'
    | _ \<Rightarrow> False)"
  using token_determined_by_inputs [where rawSalt = "replicate 16 0" and t = 1761868800123456789
      and t' = 1761868800999999999 and action = "''reset''" and uid = 7
      and expiresIn = 60000000000 and expiresIn' = 0, OF newNonce_Inr newNonce_Inr]
  by (simp add: newNonce_Inr Unix_def Second_def)

section \<open>One valid nonce per user and action\<close>

text \<open>
  Claim C2. After \<open>New\<close> for an action and a user, with its invalidation step, the
  nonce it returns is the only stored one that is valid for this action and user: every
  other stored nonce of the pair is still there with \<open>IsValid\<close> false and nothing else
  changed, and the nonces of the other pairs are as they were (in memory, but for the one
  the new token replaces, if any), so that no pair has more valid nonces than before.
  \<open>uuid.NewV4\<close> is taken to return an ID that no stored nonce has: \<open>New\<close> tells the
  new nonce from the others by its ID. (For the database service, when the database
  answers.)
\<close>

theorem New_leaves_one_valid:
  "(newID \<notin> ID ` snd ` set st \<longrightarrow>
      (\<exists>n st'. inmem_New st (Inr rawSalt) t newID action uid expiresIn = (Inr n, st') \<and>
         filter (\<lambda>v. IsValid v \<and> UserID v = uid \<and> Action v = action) (map snd st') = [n] \<and>
         (\<forall>k v. map_of st k = Some v \<and> k \<noteq> Token n \<longrightarrow>
            map_of st' k =
              Some (if UserID v = uid \<and> Action v = action then v\<lparr>IsValid := False\<rparr> else v)) \<and>
         (\<forall>u a. (u, a) \<noteq> (uid, action) \<longrightarrow>
            length (filter (\<lambda>v. IsValid v \<and> UserID v = u \<and> Action v = a) (map snd st'))
              \<le> length (filter (\<lambda>v. IsValid v \<and> UserID v = u \<and> Action v = a) (map snd st))))) \<and>
   (newID \<notin> ID ` set (rows d) \<and> faults d = [] \<longrightarrow>
      (\<exists>n d'. sqlx_New d (Inr rawSalt) t newID action uid expiresIn = (Inr n, d') \<and>
         filter (\<lambda>v. IsValid v \<and> UserID v = uid \<and> Action v = action) (rows d') = [n] \<and>
         rows d' =
           map (\<lambda>v. if UserID v = uid \<and> Action v = action then v\<lparr>IsValid := False\<rparr> else v) (rows d)
           @ [n]))"
proof -
  obtain n0 where n0: "newNonce (Inr rawSalt) t action uid expiresIn = Inr n0"
    by (simp add: newNonce_Inr)
  define n where "n = n0\<lparr>ID := newID\<rparr>"
  have n: "IsValid n" "UserID n = uid" "Action n = action" "ID n = newID" "Token n = Token n0"
    using newNonce_fields [OF n0] by (simp_all add: n_def)
  let ?P = "\<lambda>v. IsValid v \<and> UserID v = uid \<and> Action v = action"
  show ?thesis
  proof (intro conjI impI)
    assume fresh: "newID \<notin> ID ` snd ` set st"
    define st' where "st' = map (\<lambda>(k, v). (k, invalidate n v)) (AList.update (Token n) n st)"
    have new: "inmem_New st (Inr rawSalt) t newID action uid expiresIn = (Inr n, st')"
      using inmem_New_Inr [OF n0, of st newID] n by (simp add: n_def st'_def)
    have other: "invalidate n v = (if UserID v = uid \<and> Action v = action then v\<lparr>IsValid := False\<rparr> else v)"
      if "v \<in> snd ` set st" for v
    proof -
      from that fresh have "ID v \<noteq> ID n" unfolding n(4) by blast
      then show ?thesis by (simp add: invalidate_other n)
    qed
    have snd': "map snd st' = map (\<lambda>p. invalidate n (snd p)) (AList.update (Token n) n st)"
      by (simp add: st'_def case_prod_unfold)
    have one: "filter ?P (map snd st') = [n]"
      unfolding snd'
      using filter_map_update_single [of st ?P "invalidate n" n "Token n"] other n
      by (simp add: invalidate_self)
    have kept: "map_of st' k = Some (if UserID v = uid \<and> Action v = action then v\<lparr>IsValid := False\<rparr> else v)"
      if "map_of st k = Some v \<and> k \<noteq> Token n" for k v
    proof -
      from that have "v \<in> snd ` set st"
        by (force dest: map_of_SomeD)
      with that other [of v] show ?thesis
        by (simp add: st'_def map_of_map update_conv')
    qed
    have others: "length (filter (\<lambda>v. IsValid v \<and> UserID v = u \<and> Action v = a) (map snd st'))
        \<le> length (filter (\<lambda>v. IsValid v \<and> UserID v = u \<and> Action v = a) (map snd st))"
      if "(u, a) \<noteq> (uid, action)" for u a
      unfolding snd'
    proof (rule length_filter_map_update_le)
      fix v
      assume "IsValid (invalidate n v) \<and> UserID (invalidate n v) = u \<and> Action (invalidate n v) = a"
      then show "IsValid v \<and> UserID v = u \<and> Action v = a"
        by (auto simp: invalidate_def split: if_splits)
    next
      from that n show "\<not> (IsValid (invalidate n n) \<and> UserID (invalidate n n) = u \<and>
          Action (invalidate n n) = a)"
        by (auto simp: invalidate_self)
    qed
    from kept have kept': "\<forall>k v. map_of st k = Some v \<and> k \<noteq> Token n \<longrightarrow>
            map_of st' k =
              Some (if UserID v = uid \<and> Action v = action then v\<lparr>IsValid := False\<rparr> else v)"
      by blast
    from others have others': "\<forall>u a. (u, a) \<noteq> (uid, action) \<longrightarrow>
            length (filter (\<lambda>v. IsValid v \<and> UserID v = u \<and> Action v = a) (map snd st'))
              \<le> length (filter (\<lambda>v. IsValid v \<and> UserID v = u \<and> Action v = a) (map snd st))"
      by blast
    from new one kept' others'
    have "inmem_New st (Inr rawSalt) t newID action uid expiresIn = (Inr n, st') \<and>
         filter (\<lambda>v. IsValid v \<and> UserID v = uid \<and> Action v = action) (map snd st') = [n] \<and>
         (\<forall>k v. map_of st k = Some v \<and> k \<noteq> Token n \<longrightarrow>
            map_of st' k =
              Some (if UserID v = uid \<and> Action v = action then v\<lparr>IsValid := False\<rparr> else v)) \<and>
         (\<forall>u a. (u, a) \<noteq> (uid, action) \<longrightarrow>
            length (filter (\<lambda>v. IsValid v \<and> UserID v = u \<and> Action v = a) (map snd st'))
              \<le> length (filter (\<lambda>v. IsValid v \<and> UserID v = u \<and> Action v = a) (map snd st)))"
      by (intro conjI)
    then show "\<exists>n st'. inmem_New st (Inr rawSalt) t newID action uid expiresIn = (Inr n, st') \<and>
         filter (\<lambda>v. IsValid v \<and> UserID v = uid \<and> Action v = action) (map snd st') = [n] \<and>
         (\<forall>k v. map_of st k = Some v \<and> k \<noteq> Token n \<longrightarrow>
            map_of st' k =
              Some (if UserID v = uid \<and> Action v = action then v\<lparr>IsValid := False\<rparr> else v)) \<and>
         (\<forall>u a. (u, a) \<noteq> (uid, action) \<longrightarrow>
            length (filter (\<lambda>v. IsValid v \<and> UserID v = u \<and> Action v = a) (map snd st'))
              \<le> length (filter (\<lambda>v. IsValid v \<and> UserID v = u \<and> Action v = a) (map snd st)))"
      by blast
  next
    assume a: "newID \<notin> ID ` set (rows d) \<and> faults d = []"
    define d' where "d' = d\<lparr>rows := map (invalidate n) (rows d) @ [n]\<rparr>"
    have new: "sqlx_New d (Inr rawSalt) t newID action uid expiresIn = (Inr n, d')"
      using sqlx_New_Inr [OF n0, of d newID] a by (simp add: n_def d'_def)
    have other: "invalidate n v = (if UserID v = uid \<and> Action v = action then v\<lparr>IsValid := False\<rparr> else v)"
      if "v \<in> set (rows d)" for v
    proof -
      from that a have "ID v \<noteq> ID n" unfolding n(4) by blast
      then show ?thesis by (simp add: invalidate_other n)
    qed
    have "map (invalidate n) (rows d) =
        map (\<lambda>v. if UserID v = uid \<and> Action v = action then v\<lparr>IsValid := False\<rparr> else v) (rows d)"
      by (rule map_cong [OF refl]) (rule other)
    then have rows': "rows d' =
        map (\<lambda>v. if UserID v = uid \<and> Action v = action then v\<lparr>IsValid := False\<rparr> else v) (rows d) @ [n]"
      by (simp add: d'_def)
    have "filter ?P (map (\<lambda>v. if UserID v = uid \<and> Action v = action then v\<lparr>IsValid := False\<rparr> else v)
        (rows d)) = []"
      by (rule none_valid_after)
    with rows' n have "filter ?P (rows d') = [n]"
      by simp
    with new rows'
    have "sqlx_New d (Inr rawSalt) t newID action uid expiresIn = (Inr n, d') \<and>
         filter (\<lambda>v. IsValid v \<and> UserID v = uid \<and> Action v = action) (rows d') = [n] \<and>
         rows d' =
           map (\<lambda>v. if UserID v = uid \<and> Action v = action then v\<lparr>IsValid := False\<rparr> else v) (rows d)
           @ [n]"
      by simp
    then show "\<exists>n d'. sqlx_New d (Inr rawSalt) t newID action uid expiresIn = (Inr n, d') \<and>
         filter (\<lambda>v. IsValid v \<and> UserID v = uid \<and> Action v = action) (rows d') = [n] \<and>
         rows d' =
           map (\<lambda>v. if UserID v = uid \<and> Action v = action then v\<lparr>IsValid := False\<rparr> else v) (rows d)
           @ [n]"
      by blast
  qed
qed

text \<open>
  \<open>nonceA\<close> is valid for user 7 and the action \<open>reset\<close>: a new nonce for them
  invalidates it.
\<close>

theorem New_leaves_one_valid_witness:
  "9 \<notin> ID ` snd ` set [(tokA, nonceA), (tokB, nonceB)] \<and> 9 \<notin> ID ` set [nonceA, nonceB] \<and>
   IsValid nonceA \<and> UserID nonceA = 7 \<and> Action nonceA = ''reset'' \<and>
   (\<exists>n st'. inmem_New [(tokA, nonceA), (tokB, nonceB)] (Inr (replicate 16 0)) 1600000000 9
        ''reset'' 7 60000000000 = (Inr n, st') \<and>
      filter (\<lambda>v. IsValid v \<and> UserID v = 7 \<and> Action v = ''reset'') (map snd st') = [n]) \<and>
   (\<exists>n d'. sqlx_New \<lparr>rows = [nonceA, nonceB], faults = []\<rparr> (Inr (replicate 16 0)) 1600000000 9
        ''reset'' 7 60000000000 = (Inr n, d') \<and>
      filter (\<lambda>v. IsValid v \<and> UserID v = 7 \<and> Action v = ''reset'') (rows d') = [n] \<and>
      rows d' = [nonceA\<lparr>IsValid := False\<rparr>, nonceB, n])"
proof -
  have "9 \<notin> ID ` snd ` set [(tokA, nonceA), (tokB, nonceB)]"
    and "9 \<notin> ID ` set (rows \<lparr>rows = [nonceA, nonceB], faults = []\<rparr>) \<and>
      faults \<lparr>rows = [nonceA, nonceB], faults = []\<rparr> = []"
    by (simp_all add: nonceA_def nonceB_def)
  with New_leaves_one_valid [of 9 "[(tokA, nonceA), (tokB, nonceB)]" "replicate 16 0" 1600000000
      "''reset''" 7 60000000000 "\<lparr>rows = [nonceA, nonceB], faults = []\<rparr>"]
  show ?thesis
    by (auto simp: nonceA_def nonceB_def)
qed

section \<open>Get\<close>

text \<open>
  Claim C1, amended. \<open>Get\<close> looks for the valid nonces of the action and user. In
  memory, only a valid nonce with a positive \<open>CreatedAt\<close> (one created after the epoch)
  counts: when the pair has nonces but none of these, \<open>Get\<close> answers token-not-found, and
  otherwise it returns a valid nonce of the pair whose \<open>CreatedAt\<close> is the greatest
  among the valid ones, whether or not the pair has newer nonces that are not valid. The
  database service returns the first valid row of the pair, and token-not-found when there
  is none (when the database answers). Neither changes the store. What the in-memory
  service does when the pair has no nonce at all is left out here
  (\<open>inmem_Get_empty_store\<close>).
\<close>

theorem Get_returns_valid_nonce:
  "((\<exists>c\<in>set (map snd st). Action c = action \<and> UserID c = uid) \<and>
    (\<forall>c\<in>set (map snd st). Action c = action \<and> UserID c = uid \<longrightarrow> \<not> (IsValid c \<and> 0 < CreatedAt c)) \<longrightarrow>
      inmem_Get st action uid = (Inl ErrTokenNotFound, st)) \<and>
   ((\<exists>c\<in>set (map snd st). Action c = action \<and> UserID c = uid \<and> IsValid c \<and> 0 < CreatedAt c) \<longrightarrow>
      (\<exists>n. inmem_Get st action uid = (Inr n, st) \<and>
           n \<in> set (map snd st) \<and> Action n = action \<and> UserID n = uid \<and> IsValid n \<and>
           (\<forall>c\<in>set (map snd st). Action c = action \<and> UserID c = uid \<and> IsValid c \<longrightarrow>
              CreatedAt c \<le> CreatedAt n))) \<and>
   (faults d = [] \<longrightarrow>
      sqlx_Get d action uid =
        (case filter (\<lambda>r. Action r = action \<and> UserID r = uid \<and> IsValid r) (rows d) of
           [] \<Rightarrow> (Inl ErrTokenNotFound, d)
         | n # ns \<Rightarrow> (Inr n, d)))"
proof (intro conjI impI)
  let ?ms = "filter (\<lambda>n. Action n = action \<and> UserID n = uid) (map snd st)"
  let ?f = "\<lambda>newestN n. if CreatedAt newestN < CreatedAt n \<and> IsValid n then n else newestN"
  let ?r = "foldl ?f zeroNonce ?ms"
  note fold = newest_fold [of zeroNonce ?ms]
  have z: "CreatedAt zeroNonce = 0" "\<not> IsValid zeroNonce"
    by (simp_all add: zeroNonce_def)
  {
    assume a: "(\<exists>c\<in>set (map snd st). Action c = action \<and> UserID c = uid) \<and>
      (\<forall>c\<in>set (map snd st). Action c = action \<and> UserID c = uid \<longrightarrow> \<not> (IsValid c \<and> 0 < CreatedAt c))"
    then have ne: "?ms \<noteq> []"
      by (auto simp: filter_empty_conv)
    from a fold z have "?r = zeroNonce"
      by auto
    with z ne show "inmem_Get st action uid = (Inl ErrTokenNotFound, st)"
      by (simp add: inmem_Get_unfold)
  }
  {
    assume "\<exists>c\<in>set (map snd st). Action c = action \<and> UserID c = uid \<and> IsValid c \<and> 0 < CreatedAt c"
    then obtain c where c: "c \<in> set ?ms" "IsValid c" "0 < CreatedAt c"
      by auto
    from c(1) have ne: "?ms \<noteq> []" by (metis empty_iff empty_set)
    define r where "r = ?r"
    note foldr = fold [folded r_def]
    from c foldr have "CreatedAt c \<le> CreatedAt r" by blast
    with c z have "r \<noteq> zeroNonce" by auto
    with foldr have r: "r \<in> set ?ms" "IsValid r" by blast+
    from foldr have mx: "\<forall>n\<in>set ?ms. IsValid n \<longrightarrow> CreatedAt n \<le> CreatedAt r" by blast
    from ne r have "inmem_Get st action uid = (Inr r, st)"
      by (simp add: inmem_Get_unfold r_def)
    moreover from r have "r \<in> set (map snd st) \<and> Action r = action \<and> UserID r = uid \<and> IsValid r"
      by simp
    moreover from mx have "\<forall>c\<in>set (map snd st). Action c = action \<and> UserID c = uid \<and> IsValid c \<longrightarrow>
        CreatedAt c \<le> CreatedAt r"
      by simp
    ultimately show "\<exists>n. inmem_Get st action uid = (Inr n, st) \<and>
           n \<in> set (map snd st) \<and> Action n = action \<and> UserID n = uid \<and> IsValid n \<and>
           (\<forall>c\<in>set (map snd st). Action c = action \<and> UserID c = uid \<and> IsValid c \<longrightarrow>
              CreatedAt c \<le> CreatedAt n)"
      by blast
  }
  {
    assume f: "faults d = []"
    have "find P xs = (case filter P xs of [] \<Rightarrow> None | x # _ \<Rightarrow> Some x)" for P and xs :: "Nonce list"
      by (induction xs) simp_all
    with f show "sqlx_Get d action uid =
        (case filter (\<lambda>r. Action r = action \<and> UserID r = uid \<and> IsValid r) (rows d) of
           [] \<Rightarrow> (Inl ErrTokenNotFound, d)
         | n # ns \<Rightarrow> (Inr n, d))"
      by (simp add: sqlx_Get_def db_Get_ok split: list.splits)
  }
qed

text \<open>
  \<open>nonceA\<close> is valid and \<open>nonceB\<close>, the newer one, is not.
\<close>

theorem Get_returns_valid_nonce_witness:
  "inmem_Get [(tokA, nonceA), (tokB, nonceB)] ''reset'' 7 = (Inr nonceA, [(tokA, nonceA), (tokB, nonceB)]) \<and>
   inmem_Get [(tokB, nonceB)] ''reset'' 7 = (Inl ErrTokenNotFound, [(tokB, nonceB)]) \<and>
   sqlx_Get \<lparr>rows = [nonceB, nonceA], faults = []\<rparr> ''reset'' 7
     = (Inr nonceA, \<lparr>rows = [nonceB, nonceA], faults = []\<rparr>) \<and>
   sqlx_Get \<lparr>rows = [nonceB], faults = []\<rparr> ''reset'' 7
     = (Inl ErrTokenNotFound, \<lparr>rows = [nonceB], faults = []\<rparr>)"
  using Get_returns_valid_nonce [of "[(tokA, nonceA), (tokB, nonceB)]" "''reset''" 7
      "\<lparr>rows = [nonceB, nonceA], faults = []\<rparr>"]
    Get_returns_valid_nonce [of "[(tokB, nonceB)]" "''reset''" 7
      "\<lparr>rows = [nonceB], faults = []\<rparr>"]
  by (auto simp: nonceA_def nonceB_def)

text \<open>
  The claim as it was stated has \<open>Get\<close> answer token-not-found when the newest nonce of
  the pair is not valid, and return the nonce when the pair has exactly one. With the older
  \<open>nonceA\<close> valid and the newer \<open>nonceB\<close> not, both services return \<open>nonceA\<close>, in
  either order; with \<open>nonceB\<close> alone, both answer token-not-found.
\<close>

theorem Get_falls_back_counterexample:
  "CreatedAt nonceA < CreatedAt nonceB \<and> \<not> IsValid nonceB \<and> IsValid nonceA \<and>
   Action nonceA = ''reset'' \<and> UserID nonceA = 7 \<and> Action nonceB = ''reset'' \<and> UserID nonceB = 7 \<and>
   fst (inmem_Get [(tokA, nonceA), (tokB, nonceB)] ''reset'' 7) = Inr nonceA \<and>
   fst (inmem_Get [(tokB, nonceB), (tokA, nonceA)] ''reset'' 7) = Inr nonceA \<and>
   fst (sqlx_Get \<lparr>rows = [nonceA, nonceB], faults = []\<rparr> ''reset'' 7) = Inr nonceA \<and>
   fst (sqlx_Get \<lparr>rows = [nonceB, nonceA], faults = []\<rparr> ''reset'' 7) = Inr nonceA \<and>
   fst (inmem_Get [(tokB, nonceB)] ''reset'' 7) = Inl ErrTokenNotFound \<and>
   fst (sqlx_Get \<lparr>rows = [nonceB], faults = []\<rparr> ''reset'' 7) = Inl ErrTokenNotFound"
  by (simp add: inmem_Get_unfold sqlx_Get_def db_Get_ok nonceA_def nonceB_def zeroNonce_def Let_def)

section \<open>Shutdown\<close>

text \<open>
  Claim C7, amended. A call of \<open>Shutdown\<close> returns only while the sweeper runs: when
  the sweeper is at its \<open>select\<close> with a caller waiting, the only step that takes it
  away from there is the one that receives the signal, after which the sweeper has exited
  and one caller has returned. Once the sweeper has exited it stays so, nothing panics, and
  no call of \<open>Shutdown\<close> returns any more: every caller that arrives stays blocked in the
  send. This holds for both services (\<open>sweep\<close> is the pass of either one).
\<close>

theorem Shutdown_returns_only_while_sweeper_runs:
  "(task c = Polling \<and> 0 < blocked c \<longrightarrow>
      (\<forall>c'. step sweep c c' \<and> task c' \<noteq> Polling \<longrightarrow>
         task c' = Exited \<and> returned c' = returned c + 1 \<and> blocked c' = blocked c - 1)) \<and>
   (task c = Exited \<longrightarrow>
      (\<forall>c'. (step sweep)\<^sup>*\<^sup>* c c' \<longrightarrow>
         task c' = Exited \<and> returned c' = returned c \<and> blocked c \<le> blocked c'))"
proof (intro conjI impI allI)
  fix c'
  assume a: "task c = Polling \<and> 0 < blocked c" and s: "step sweep c c' \<and> task c' \<noteq> Polling"
  from s have "step sweep c c'" ..
  then show "task c' = Exited" and "returned c' = returned c + 1" and "blocked c' = blocked c - 1"
    using a s by (cases rule: step.cases; simp)+
next
  fix c'
  assume "task c = Exited" and "(step sweep)\<^sup>*\<^sup>* c c'"
  then show "task c' = Exited" and "returned c' = returned c" and "blocked c \<le> blocked c'"
    using exited_forever [of sweep c c'] by simp_all
qed

text \<open>
  A caller is waiting, the sweeper receives and exits; a second caller arrives and waits.
\<close>

theorem Shutdown_returns_only_while_sweeper_runs_witness:
  "task \<lparr>store = ([]::inMemStore), task = Polling, blocked = 1, returned = 0\<rparr> = Polling \<and>
   step inmem_tick \<lparr>store = [], task = Polling, blocked = 1, returned = 0\<rparr>
     \<lparr>store = [], task = Exited, blocked = 0, returned = 1\<rparr> \<and>
   (step inmem_tick)\<^sup>*\<^sup>* \<lparr>store = [], task = Exited, blocked = 0, returned = 1\<rparr>
     \<lparr>store = [], task = Exited, blocked = 1, returned = 1\<rparr> \<and>
   returned \<lparr>store = ([]::inMemStore), task = Exited, blocked = 1, returned = 1\<rparr>
     = returned \<lparr>store = ([]::inMemStore), task = Exited, blocked = 0, returned = 1\<rparr>"
proof -
  let ?c1 = "\<lparr>store = ([]::inMemStore), task = Polling, blocked = 1, returned = 0\<rparr>"
  let ?c2 = "\<lparr>store = ([]::inMemStore), task = Exited, blocked = 0, returned = 1\<rparr>"
  let ?c3 = "\<lparr>store = ([]::inMemStore), task = Exited, blocked = 1, returned = 1\<rparr>"
  have s1: "step inmem_tick ?c1 ?c2" using step.quit [of ?c1 inmem_tick] by simp
  have "step inmem_tick ?c2 ?c3" using step.call [of ?c2 inmem_tick] by simp
  then have s2: "(step inmem_tick)\<^sup>*\<^sup>* ?c2 ?c3" by (rule r_into_rtranclp)
  with s1 Shutdown_returns_only_while_sweeper_runs [of ?c1 inmem_tick]
    Shutdown_returns_only_while_sweeper_runs [of ?c2 inmem_tick]
  show ?thesis by simp
qed

text \<open>
  The claim as it was stated has a second \<open>Shutdown\<close> return. From a new in-memory
  service, a first call of \<open>Shutdown\<close> returns when the sweeper exits; with a second
  caller in the send, no state the service can reach has this caller gone from the send, a
  second call returned, or a panic.
\<close>

theorem second_Shutdown_blocks_counterexample:
  "(step inmem_tick)\<^sup>*\<^sup>*
      \<lparr>store = [], task = Polling, blocked = 0, returned = 0\<rparr>
      \<lparr>store = [], task = Exited, blocked = 1, returned = 1\<rparr> \<and>
   \<not> (\<exists>c. (step inmem_tick)\<^sup>*\<^sup>* \<lparr>store = [], task = Exited, blocked = 1, returned = 1\<rparr> c \<and>
          (blocked c = 0 \<or> returned c \<noteq> 1 \<or> task c = Panicked))"
proof
  let ?c0 = "\<lparr>store = ([]::inMemStore), task = Polling, blocked = 0, returned = 0\<rparr>"
  let ?c1 = "\<lparr>store = ([]::inMemStore), task = Polling, blocked = 1, returned = 0\<rparr>"
  let ?c2 = "\<lparr>store = ([]::inMemStore), task = Exited, blocked = 0, returned = 1\<rparr>"
  let ?c3 = "\<lparr>store = ([]::inMemStore), task = Exited, blocked = 1, returned = 1\<rparr>"
  have "step inmem_tick ?c0 ?c1" using step.call [of ?c0 inmem_tick] by simp
  moreover have "step inmem_tick ?c1 ?c2" using step.quit [of ?c1 inmem_tick] by simp
  moreover have "step inmem_tick ?c2 ?c3" using step.call [of ?c2 inmem_tick] by simp
  ultimately show "(step inmem_tick)\<^sup>*\<^sup>* ?c0 ?c3"
    by (meson rtranclp.rtrancl_into_rtrancl rtranclp.rtrancl_refl)
  show "\<not> (\<exists>c. (step inmem_tick)\<^sup>*\<^sup>* ?c3 c \<and> (blocked c = 0 \<or> returned c \<noteq> 1 \<or> task c = Panicked))"
  proof
    assume "\<exists>c. (step inmem_tick)\<^sup>*\<^sup>* ?c3 c \<and> (blocked c = 0 \<or> returned c \<noteq> 1 \<or> task c = Panicked)"
    then obtain c where r: "(step inmem_tick)\<^sup>*\<^sup>* ?c3 c"
      and b: "blocked c = 0 \<or> returned c \<noteq> 1 \<or> task c = Panicked"
      by blast
    from exited_forever [OF r] have "task c = Exited \<and> returned c = 1 \<and> 1 \<le> blocked c"
      by simp
    with b show False by auto
  qed
qed

end
